theory Spec2Isabelle
  imports Complex_Main "HOL-Library.Word"
begin

unbundle bit_operations_syntax

section \<open>The byte sink: \<open>CodeGeneratorBase\<close>\<close>

text \<open>
  The code generator of gta3sc (\<open>src/codegen.hpp\<close>) writes little-endian bytes into a
  buffer of fixed capacity through the \<open>emplace_*\<close> members of \<open>CodeGeneratorBase\<close>.

  Conventions of the embedding.
  \<^item> \<open>uint8_t\<close>/\<open>int8_t\<close>, \<open>uint16_t\<close>/\<open>int16_t\<close> and \<open>uint32_t\<close>/\<open>int32_t\<close> are
    \<open>8 word\<close>, \<open>16 word\<close> and \<open>32 word\<close>; the \<open>reinterpret_cast\<close>s between the signed
    and the unsigned type of one width are the identity on the bits.
  \<^item> \<open>size_t\<close> (the cursor, the capacity, element counts) is \<open>nat\<close>: these numbers count
    bytes and elements that exist in memory. The \<open>count\<close> of \<open>emplace_chars\<close>,
    \<open>emplace_bytes\<close> and \<open>emplace_fill\<close> is any \<open>size_t\<close>, so the sum \<open>offset + count\<close> of
    their assertions is written with its wrap-around, for a \<open>size_t\<close> of 64 bits.
  \<^item> \<open>assert\<close>, \<open>Expects\<close> and \<open>optional::value()\<close> on an empty optional end the run.
    A run that ends so is \<open>Inl (e, s)\<close>, where \<open>s\<close> is the generator as it was when the
    run ended; a run that returns is \<open>Inr s\<close>.
\<close>

type_synonym byte = "8 word"

datatype error =
    AssertionFailed       \<comment> \<open>\<open>assert(...)\<close> does not hold\<close>
  | ContractViolation     \<comment> \<open>\<open>Expects(...)\<close> does not hold\<close>
  | BadOptionalAccess     \<comment> \<open>\<open>value()\<close> of an empty optional\<close>
  | WriteOutOfBounds      \<comment> \<open>a copy that runs past the end of the buffer (undefined behaviour)\<close>

type_synonym 's result = "(error \<times> 's) + 's"

definition bind_r :: "'s result \<Rightarrow> ('s \<Rightarrow> 's result) \<Rightarrow> 's result" where
  "bind_r r f = (case r of Inl e \<Rightarrow> Inl e | Inr s \<Rightarrow> f s)"

text \<open>Statements executed one after the other; the first that ends the run ends the sequence.\<close>

fun seq :: "('s \<Rightarrow> 's result) list \<Rightarrow> 's \<Rightarrow> 's result" where
  "seq [] s = Inr s"
| "seq (f # fs) s = bind_r (f s) (seq fs)"

record Options =
  optimize_zero_floats :: bool
  use_half_float :: bool
  use_local_offsets :: bool
  has_text_label_prefix :: bool

text \<open>
  Modelled from the spec: \<open>ProgramContext\<close> is declared in \<open>program.hpp\<close>, which is not
  among the sources. The generator reads its options \<open>opt\<close> and reports diagnostics through
  \<open>program.error(nocontext, msg)\<close>, which returns (section 7 of the specification: emission
  continues); the model keeps the reported messages, latest first.
\<close>

record ProgramContext =
  opt :: Options
  reported :: "string list"

definition program_error :: "string \<Rightarrow> ProgramContext \<Rightarrow> ProgramContext" where
  "program_error msg p = p\<lparr>reported := msg # reported p\<rparr>"

record CodeGeneratorBase =
  program :: ProgramContext
  bytecode :: "byte list"      \<comment> \<open>\<open>size == max_offset\<close>\<close>
  offset :: nat
  max_offset :: nat

definition buffer_size :: "'a CodeGeneratorBase_scheme \<Rightarrow> nat" where
  "buffer_size cg = max_offset cg"

definition current_offset :: "'a CodeGeneratorBase_scheme \<Rightarrow> nat" where
  "current_offset cg = offset cg"

definition emplace_u8 :: "byte \<Rightarrow> 'a CodeGeneratorBase_scheme \<Rightarrow> 'a CodeGeneratorBase_scheme result" where
  "emplace_u8 v cg =
     (if offset cg + 1 \<le> max_offset cg
      then Inr (cg\<lparr>bytecode := (bytecode cg)[offset cg := v], offset := offset cg + 1\<rparr>)
      else Inl (AssertionFailed, cg))"

definition emplace_u16 :: "16 word \<Rightarrow> 'a CodeGeneratorBase_scheme \<Rightarrow> 'a CodeGeneratorBase_scheme result" where
  "emplace_u16 v =
     seq [emplace_u8 (ucast (drop_bit 0 (v AND 0x00FF))),
          emplace_u8 (ucast (drop_bit 8 (v AND 0xFF00)))]"

definition emplace_u32 :: "32 word \<Rightarrow> 'a CodeGeneratorBase_scheme \<Rightarrow> 'a CodeGeneratorBase_scheme result" where
  "emplace_u32 v =
     seq [emplace_u8 (ucast (drop_bit 0 (v AND 0x000000FF))),
          emplace_u8 (ucast (drop_bit 8 (v AND 0x0000FF00))),
          emplace_u8 (ucast (drop_bit 16 (v AND 0x00FF0000))),
          emplace_u8 (ucast (drop_bit 24 (v AND 0xFF000000)))]"

definition emplace_i8 :: "byte \<Rightarrow> 'a CodeGeneratorBase_scheme \<Rightarrow> 'a CodeGeneratorBase_scheme result" where
  "emplace_i8 v = emplace_u8 v"

definition emplace_i16 :: "16 word \<Rightarrow> 'a CodeGeneratorBase_scheme \<Rightarrow> 'a CodeGeneratorBase_scheme result" where
  "emplace_i16 v = emplace_u16 v"

definition emplace_i32 :: "32 word \<Rightarrow> 'a CodeGeneratorBase_scheme \<Rightarrow> 'a CodeGeneratorBase_scheme result" where
  "emplace_i32 v = emplace_u32 v"

text \<open>
  \<open>write_at\<close> is the effect of \<open>memcpy\<close>, \<open>memset\<close> and \<open>strncpy\<close> on the buffer: the bytes
  \<open>bs\<close> replace those at positions \<open>pos, pos + 1, ...\<close>; the callers have asserted that the
  positions exist.
\<close>

definition write_at :: "nat \<Rightarrow> byte list \<Rightarrow> byte list \<Rightarrow> byte list" where
  "write_at pos bs buf = take pos buf @ bs @ drop (pos + length bs) buf"

text \<open>
  \<open>std::strncpy(dest, src, count)\<close>: the characters of the C string at \<open>src\<close> (those before
  its first NUL), at most \<open>count\<close> of them; when the string is shorter, NULs are written
  until \<open>count\<close> bytes have been written in all. The argument \<open>src\<close> lists the bytes at
  the pointer; a C string ends at its first zero byte (or where the list ends).
\<close>

definition c_string :: "byte list \<Rightarrow> byte list" where
  "c_string src = takeWhile (\<lambda>c. c \<noteq> 0) src"

definition strlen :: "byte list \<Rightarrow> nat" where
  "strlen src = length (c_string src)"

definition strncpy :: "byte list \<Rightarrow> nat \<Rightarrow> byte list" where
  "strncpy src count = take count (c_string src) @ replicate (count - strlen src) 0"

text \<open>
  \<open>assert(this->offset + count <= max_offset)\<close> is evaluated in \<open>size_t\<close>: the sum is taken
  modulo \<open>2 ^ 64\<close>. When the sum wraps, the assertion can hold although the \<open>count\<close> bytes do
  not fit; the copy then runs past the end of the buffer, which is undefined behaviour. The
  run is then \<open>Inl (WriteOutOfBounds, s)\<close> with \<open>s\<close> the generator before the copy: what the
  copy leaves behind is not defined, and no statement below depends on it.
\<close>

definition size_t_add :: "nat \<Rightarrow> nat \<Rightarrow> nat" where
  "size_t_add a b = (a + b) mod 2 ^ 64"

definition emplace_chars :: "nat \<Rightarrow> byte list \<Rightarrow> 'a CodeGeneratorBase_scheme \<Rightarrow> 'a CodeGeneratorBase_scheme result" where
  "emplace_chars count data cg =
     (if size_t_add (offset cg) count \<le> max_offset cg
      then (if offset cg + count \<le> max_offset cg
            then Inr (cg\<lparr>bytecode := write_at (offset cg) (strncpy data count) (bytecode cg),
                        offset := offset cg + count\<rparr>)
            else Inl (WriteOutOfBounds, cg))
      else Inl (AssertionFailed, cg))"

text \<open>\<open>emplace_bytes(count, bytes)\<close> copies the first \<open>count\<close> bytes at \<open>bytes\<close>; its one caller
  passes a vector and its size, so \<open>count\<close> bytes are there.\<close>

definition emplace_bytes :: "nat \<Rightarrow> byte list \<Rightarrow> 'a CodeGeneratorBase_scheme \<Rightarrow> 'a CodeGeneratorBase_scheme result" where
  "emplace_bytes count bytes cg =
     (if size_t_add (offset cg) count \<le> max_offset cg
      then (if offset cg + count \<le> max_offset cg
            then Inr (cg\<lparr>bytecode := write_at (offset cg) (take count bytes) (bytecode cg),
                        offset := offset cg + count\<rparr>)
            else Inl (WriteOutOfBounds, cg))
      else Inl (AssertionFailed, cg))"

definition emplace_fill :: "nat \<Rightarrow> byte \<Rightarrow> 'a CodeGeneratorBase_scheme \<Rightarrow> 'a CodeGeneratorBase_scheme result" where
  "emplace_fill count val cg =
     (if size_t_add (offset cg) count \<le> max_offset cg
      then (if offset cg + count \<le> max_offset cg
            then Inr (cg\<lparr>bytecode := write_at (offset cg) (replicate count val) (bytecode cg),
                        offset := offset cg + count\<rparr>)
            else Inl (WriteOutOfBounds, cg))
      else Inl (AssertionFailed, cg))"

text \<open>
  \<open>setup_buffer\<close> allocates with \<open>new uint8_t[max_offset]\<close>, which does not initialise the
  bytes: \<open>mem\<close> gives the byte found at each position of the fresh array.
\<close>

definition setup_buffer :: "nat \<Rightarrow> (nat \<Rightarrow> byte) \<Rightarrow> 'a CodeGeneratorBase_scheme \<Rightarrow> 'a CodeGeneratorBase_scheme" where
  "setup_buffer n mem cg = cg\<lparr>offset := 0, max_offset := n, bytecode := map mem [0..<n]\<rparr>"

text \<open>The bytes between two positions of the buffer, and the image written so far.\<close>

definition bytes_between :: "nat \<Rightarrow> nat \<Rightarrow> 'a CodeGeneratorBase_scheme \<Rightarrow> byte list" where
  "bytes_between i j cg = take (j - i) (drop i (bytecode cg))"

definition emitted :: "'a CodeGeneratorBase_scheme \<Rightarrow> byte list" where
  "emitted cg = take (offset cg) (bytecode cg)"


section \<open>The intermediate representation\<close>

text \<open>
  Modelled from the spec: the types of the intermediate representation (\<open>Script\<close>,
  \<open>Label\<close>, \<open>Var\<close>, \<open>CompiledVar\<close>, \<open>CompiledString\<close>, \<open>CompiledCommand\<close>,
  \<open>CompiledLabelDef\<close>, \<open>CompiledHex\<close>, \<open>ArgVariant\<close>, \<open>CompiledData\<close>,
  \<open>CompiledScmHeader\<close>) are declared in \<open>compiler.hpp\<close>, which is not among the sources.
  Their fields are those that \<open>codegen.hpp\<close> reads, with the variants that section 3 of
  the specification lists. Fields that another record already has carry a prefix
  (\<open>script_type\<close>, \<open>var_type\<close>, \<open>str_type\<close> for the three fields called \<open>type\<close>).

  Labels and scripts are shared objects (\<open>shared_ptr\<close>): a label is written by
  \<open>compute_labels\<close> and read by every generator that refers to it, and a label is compared
  with the generator's script by address. They live in a store and are named by reference.
  \<open>Var\<close>s and the scripts of the header are only read, and are held by value.
\<close>

datatype ScriptType = Main | MainExtension | Subscript | Mission | StreamedScript

type_synonym script_ref = nat
type_synonym label_ref = nat

record Script =
  path_stem :: "byte list"              \<comment> \<open>\<open>path.stem().u8string()\<close>\<close>
  script_type :: ScriptType
  script_offset :: "32 word option"
  script_size :: "32 word option"

record Label =
  label_script :: script_ref
  local_offset :: "32 word option"

record Heap =
  scripts_at :: "script_ref \<Rightarrow> Script"
  labels_at :: "label_ref \<Rightarrow> Label"

text \<open>
  Modelled from the spec: \<open>Label::offset()\<close> is declared in \<open>compiler.hpp\<close>. Section 3 of
  the specification: the absolute offset of a label is its script's offset in the image
  plus its local offset; both are optionals.
\<close>

definition Label_offset :: "Heap \<Rightarrow> label_ref \<Rightarrow> 32 word option" where
  "Label_offset h l =
     (case script_offset (scripts_at h (label_script (labels_at h l))) of
        None \<Rightarrow> None
      | Some so \<Rightarrow> (case local_offset (labels_at h l) of
                     None \<Rightarrow> None
                   | Some lo \<Rightarrow> Some (so + lo)))"

datatype VarType = VarType_Int | VarType_Float | VarType_TextLabel | VarType_TextLabel16

text \<open>
  Modelled from the spec: the numbers of the enumerators of \<open>VarType\<close> are not in the
  sources; they are numbered in the order in which the specification lists them.
\<close>

fun VarType_value :: "VarType \<Rightarrow> byte" where
  "VarType_value VarType_Int = 0"
| "VarType_value VarType_Float = 1"
| "VarType_value VarType_TextLabel = 2"
| "VarType_value VarType_TextLabel16 = 3"

record Var =
  global :: bool
  var_type :: VarType
  var_index :: "32 word"               \<comment> \<open>\<open>index\<close>\<close>
  var_offset :: "32 word"              \<comment> \<open>what \<open>offset()\<close> returns\<close>
  count :: "32 word option"

datatype VarIndex = IndexInt "32 word" | IndexVar Var

record CompiledVar =
  var :: Var
  index :: "VarIndex option"

datatype StringType = TextLabel8 | TextLabel16 | StringVar | String128

record CompiledString =
  str_type :: StringType
  storage :: "byte list"

text \<open>
  A \<open>float\<close> is its IEEE-754 binary32 bit pattern (the source's \<open>static_assert\<close> demands
  this representation).
\<close>

datatype ArgVariant =
    EOAL
  | Int8 "8 word"
  | Int16 "16 word"
  | Int32 "32 word"
  | Float "32 word"
  | LabelRef label_ref
  | VarRef CompiledVar
  | String CompiledString

record CompiledCommand =
  cmd_id :: "16 word"                  \<comment> \<open>\<open>id\<close>\<close>
  args :: "ArgVariant list"

text \<open>
  The sum \<open>CompiledData.data\<close>: the atomic variants are those of \<open>ArgVariant\<close>; \<open>LabelDef\<close>
  holds the label of a \<open>CompiledLabelDef\<close> and \<open>Hex\<close> the bytes of a \<open>CompiledHex\<close>.
\<close>

datatype CompiledData =
    Arg ArgVariant
  | Command CompiledCommand
  | LabelDef label_ref
  | Hex "byte list"

record CodeGenerator = CodeGeneratorBase +
  script :: script_ref
  compiled :: "CompiledData list"

section \<open>Floats\<close>

text \<open>
  The fields of a binary32 bit pattern (IEEE 754): bit 31 is the sign, bits 30 to 23 the
  biased exponent, bits 22 to 0 the fraction. The exponent 255 marks the infinities and the
  NaNs; every other pattern is finite and denotes the number \<open>float_value\<close>: with exponent
  0 (zeros and subnormals) \<open>\<plusminus> 0.fraction * 2 ^ (- 126)\<close>, otherwise
  \<open>\<plusminus> 1.fraction * 2 ^ (exponent - 127)\<close>.
\<close>

definition float_exponent :: "32 word \<Rightarrow> nat" where
  "float_exponent f = unat (drop_bit 23 f AND 0xFF)"

definition float_fraction :: "32 word \<Rightarrow> nat" where
  "float_fraction f = unat (f AND 0x7FFFFF)"

definition float_finite :: "32 word \<Rightarrow> bool" where
  "float_finite f \<longleftrightarrow> float_exponent f \<noteq> 255"

definition float_magnitude :: "32 word \<Rightarrow> real" where
  "float_magnitude f =
     (if float_exponent f = 0 then real (float_fraction f) / 2 ^ 23 * 2 / 2 ^ 127
      else (1 + real (float_fraction f) / 2 ^ 23) * 2 ^ float_exponent f / 2 ^ 127)"

definition float_value :: "32 word \<Rightarrow> real" where
  "float_value f = (if bit f 31 then - float_magnitude f else float_magnitude f)"

text \<open>The conversion of a number to an integer type drops the fraction (rounds toward zero).\<close>

definition trunc_toward_zero :: "real \<Rightarrow> int" where
  "trunc_toward_zero x = (if 0 \<le> x then \<lfloor>x\<rfloor> else \<lceil>x\<rceil>)"

text \<open>\<open>f == 0.0f\<close>: both zeros compare equal to zero, nothing else does.\<close>

definition float_is_zero :: "32 word \<Rightarrow> bool" where
  "float_is_zero f \<longleftrightarrow> f AND 0x7FFFFFFF = 0"

text \<open>
  \<open>static_cast<int16_t>(value * 16.0f)\<close>. A finite binary32 is
  \<open>\<plusminus> mant * 2 ^ (ex - 150)\<close>; the product with 16 is exact (or infinite), and the cast
  drops the fraction. Where the result does not fit \<open>int16_t\<close> the cast is undefined in
  C++; the model takes what the usual x86-64 code does (\<open>cvttss2si\<close> to 32 bits, of which
  the low 16 are kept; zero when 32 bits do not hold the number).
\<close>

definition float_x16_to_int16 :: "32 word \<Rightarrow> 16 word" where
  "float_x16_to_int16 f =
     (let e = unat (drop_bit 23 f AND 0xFF);
          m = unat (f AND 0x7FFFFF);
          mant = (if e = 0 then m else 2 ^ 23 + m);
          ex = (if e = 0 then 1 else e);
          mag = (if 146 \<le> ex then mant * 2 ^ (ex - 146) else mant div 2 ^ (146 - ex));
          v = (if bit f 31 then - int mag else int mag)
      in if e = 255 then 0
         else if - (2 ^ 31) \<le> v \<and> v < 2 ^ 31 then word_of_int v else 0)"

section \<open>The size oracle: \<open>compiled_size\<close>\<close>

definition compiled_size_float :: "32 word \<Rightarrow> 'a CodeGenerator_scheme \<Rightarrow> nat" where
  "compiled_size_float f codegen =
     (if optimize_zero_floats (opt (program codegen)) \<and> float_is_zero f then 1 + 1
      else if use_half_float (opt (program codegen)) then 1 + 2
      else 1 + 4)"

definition compiled_size_var :: "CompiledVar \<Rightarrow> 'a CodeGenerator_scheme \<Rightarrow> nat" where
  "compiled_size_var v codegen =
     (case index v of
        None \<Rightarrow> 1 + 2
      | Some (IndexInt _) \<Rightarrow> 1 + 2
      | Some (IndexVar _) \<Rightarrow> 1 + 2 * 2 + 1 * 2)"

definition compiled_size_string :: "CompiledString \<Rightarrow> 'a CodeGenerator_scheme \<Rightarrow> nat" where
  "compiled_size_string s codegen =
     (case str_type s of
        TextLabel8 \<Rightarrow> (if has_text_label_prefix (opt (program codegen)) then 1 else 0) + 8
      | TextLabel16 \<Rightarrow> 1 + 16
      | StringVar \<Rightarrow> 1 + 1 + length (storage s)
      | String128 \<Rightarrow> 128)"

fun compiled_size_arg :: "ArgVariant \<Rightarrow> 'a CodeGenerator_scheme \<Rightarrow> nat" where
  "compiled_size_arg EOAL codegen = 1"
| "compiled_size_arg (Int8 _) codegen = 1 + 1"
| "compiled_size_arg (Int16 _) codegen = 1 + 2"
| "compiled_size_arg (Int32 _) codegen = 1 + 4"
| "compiled_size_arg (Float f) codegen = compiled_size_float f codegen"
| "compiled_size_arg (LabelRef _) codegen = 1 + 4"
| "compiled_size_arg (VarRef v) codegen = compiled_size_var v codegen"
| "compiled_size_arg (String s) codegen = compiled_size_string s codegen"

definition compiled_size_command :: "CompiledCommand \<Rightarrow> 'a CodeGenerator_scheme \<Rightarrow> nat" where
  "compiled_size_command cmd codegen =
     fold (\<lambda>a size. size + compiled_size_arg a codegen) (args cmd) 2"

text \<open>
  Modelled from the spec: for a \<open>CompiledLabelDef\<close> and a \<open>CompiledHex\<close> the source calls
  their member \<open>compiled_size()\<close>, declared in \<open>compiler.hpp\<close>. The table of section 4.2 of
  the specification: 0 for a label definition, the number of bytes for a hex passthrough.
\<close>

fun compiled_size :: "CompiledData \<Rightarrow> 'a CodeGenerator_scheme \<Rightarrow> nat" where
  "compiled_size (Arg a) codegen = compiled_size_arg a codegen"
| "compiled_size (Command cmd) codegen = compiled_size_command cmd codegen"
| "compiled_size (LabelDef _) codegen = 0"
| "compiled_size (Hex data) codegen = length data"


section \<open>The emitter: \<open>generate_code\<close>\<close>

definition generate_code_EOAL :: "'a CodeGenerator_scheme \<Rightarrow> 'a CodeGenerator_scheme result" where
  "generate_code_EOAL = emplace_u8 0"

definition generate_code_int8 :: "8 word \<Rightarrow> 'a CodeGenerator_scheme \<Rightarrow> 'a CodeGenerator_scheme result" where
  "generate_code_int8 v = seq [emplace_u8 4, emplace_i8 v]"

definition generate_code_int16 :: "16 word \<Rightarrow> 'a CodeGenerator_scheme \<Rightarrow> 'a CodeGenerator_scheme result" where
  "generate_code_int16 v = seq [emplace_u8 5, emplace_i16 v]"

definition generate_code_int32 :: "32 word \<Rightarrow> 'a CodeGenerator_scheme \<Rightarrow> 'a CodeGenerator_scheme result" where
  "generate_code_int32 v = seq [emplace_u8 1, emplace_i32 v]"

definition generate_code_float :: "32 word \<Rightarrow> 'a CodeGenerator_scheme \<Rightarrow> 'a CodeGenerator_scheme result" where
  "generate_code_float v codegen =
     (if optimize_zero_floats (opt (program codegen)) \<and> float_is_zero v
      then generate_code_int8 0 codegen
      else if use_half_float (opt (program codegen))
      then seq [emplace_u8 6, emplace_i16 (float_x16_to_int16 v)] codegen
      else seq [emplace_u8 6, emplace_u32 v] codegen)"

text \<open>
  The lambda \<open>emplace_local_offset\<close> of \<open>generate_code\<close> for a label. The negation of an
  \<open>int32_t\<close> is that of the word (the source's \<open>-offset\<close> is undefined for the least
  \<open>int32_t\<close>; compilers give the wrapped value).
\<close>

definition emplace_local_offset :: "32 word \<Rightarrow> 'a CodeGenerator_scheme \<Rightarrow> 'a CodeGenerator_scheme result" where
  "emplace_local_offset off codegen =
     emplace_i32 (- off)
       (if off = 0
        then codegen\<lparr>program := program_error ''XXX reference to zero offset'' (program codegen)\<rparr>
        else codegen)"

definition generate_code_label :: "Heap \<Rightarrow> label_ref \<Rightarrow> 'a CodeGenerator_scheme \<Rightarrow> 'a CodeGenerator_scheme result" where
  "generate_code_label h label_ptr codegen0 =
     bind_r (emplace_u8 1 codegen0) (\<lambda>codegen.
       if use_local_offsets (opt (program codegen)) then
         (case Label_offset h label_ptr of
            None \<Rightarrow> Inl (BadOptionalAccess, codegen)
          | Some absolute_offset \<Rightarrow> emplace_local_offset absolute_offset codegen)
       else if script_type (scripts_at h (label_script (labels_at h label_ptr))) = Mission
             \<or> script_type (scripts_at h (label_script (labels_at h label_ptr))) = StreamedScript then
         (if label_script (labels_at h label_ptr) \<noteq> script codegen
          then Inl (AssertionFailed, codegen)
          else (case local_offset (labels_at h label_ptr) of
                  None \<Rightarrow> Inl (BadOptionalAccess, codegen)
                | Some local_off \<Rightarrow> emplace_local_offset local_off codegen))
       else
         (case Label_offset h label_ptr of
            None \<Rightarrow> Inl (BadOptionalAccess, codegen)
          | Some off \<Rightarrow> emplace_i32 off codegen))"

text \<open>\<open>Expects(cond)\<close> before the statements \<open>fs\<close>.\<close>

definition expects :: "bool \<Rightarrow> ('s \<Rightarrow> 's result) list \<Rightarrow> 's \<Rightarrow> 's result" where
  "expects cond fs s = (if cond then seq fs s else Inl (ContractViolation, s))"

definition generate_code_string :: "CompiledString \<Rightarrow> 'a CodeGenerator_scheme \<Rightarrow> 'a CodeGenerator_scheme result" where
  "generate_code_string str codegen =
     (case str_type str of
        TextLabel8 \<Rightarrow>
          expects (length (storage str) \<le> 8)
            ((if has_text_label_prefix (opt (program codegen)) then [emplace_u8 9] else [])
             @ [emplace_chars 8 (storage str)]) codegen
      | TextLabel16 \<Rightarrow>
          expects (length (storage str) \<le> 16)
            [emplace_u8 0xF, emplace_chars 16 (storage str)] codegen
      | StringVar \<Rightarrow>
          expects (length (storage str) \<le> 127)
            [emplace_u8 0xE,
             emplace_u8 (of_nat (length (storage str))),
             emplace_chars (length (storage str)) (storage str)] codegen
      | String128 \<Rightarrow> emplace_chars 128 (storage str) codegen)"

text \<open>The type tag of a variable: the three \<open>switch\<close>es of \<open>generate_code\<close> for a \<open>CompiledVar\<close>;
  \<open>indexed\<close> is true in the third (the index is a variable).\<close>

definition var_tag :: "bool \<Rightarrow> bool \<Rightarrow> VarType \<Rightarrow> byte" where
  "var_tag indexed glob t =
     (case t of
        VarType_Int \<Rightarrow> (if indexed then (if glob then 0x7 else 0x8) else (if glob then 0x2 else 0x3))
      | VarType_Float \<Rightarrow> (if indexed then (if glob then 0x7 else 0x8) else (if glob then 0x2 else 0x3))
      | VarType_TextLabel \<Rightarrow> (if indexed then (if glob then 0xC else 0xD) else (if glob then 0xA else 0xB))
      | VarType_TextLabel16 \<Rightarrow> (if indexed then (if glob then 0x12 else 0x13) else (if glob then 0x10 else 0x11)))"

definition generate_code_var :: "CompiledVar \<Rightarrow> 'a CodeGenerator_scheme \<Rightarrow> 'a CodeGenerator_scheme result" where
  "generate_code_var v codegen =
     (case index v of
        None \<Rightarrow>
          seq [emplace_u8 (var_tag False (global (var v)) (var_type (var v))),
               emplace_u16 (ucast (if global (var v) then var_offset (var v) else var_index (var v)))]
            codegen
      | Some (IndexInt i) \<Rightarrow>
          seq [emplace_u8 (var_tag False (global (var v)) (var_type (var v))),
               emplace_u16 (ucast (if global (var v) then var_offset (var v) + i * 4
                                   else var_index (var v) + i))]
            codegen
      | Some (IndexVar indexVar) \<Rightarrow>
          seq [emplace_u8 (var_tag True (global (var v)) (var_type (var v))),
               emplace_u16 (ucast (if global (var v) then var_offset (var v) else var_index (var v))),
               emplace_u16 (ucast (if global indexVar then var_offset indexVar else var_index indexVar)),
               (\<lambda>cg. case count (var v) of
                        None \<Rightarrow> Inl (BadOptionalAccess, cg)
                      | Some c \<Rightarrow> emplace_u8 (ucast c) cg),
               emplace_u8 ((VarType_value (var_type (var v)) AND 0x7F)
                           OR push_bit 7 (if global indexVar then 1 else 0))]
            codegen)"

fun generate_code_arg :: "Heap \<Rightarrow> ArgVariant \<Rightarrow> 'a CodeGenerator_scheme \<Rightarrow> 'a CodeGenerator_scheme result" where
  "generate_code_arg h EOAL = generate_code_EOAL"
| "generate_code_arg h (Int8 v) = generate_code_int8 v"
| "generate_code_arg h (Int16 v) = generate_code_int16 v"
| "generate_code_arg h (Int32 v) = generate_code_int32 v"
| "generate_code_arg h (Float v) = generate_code_float v"
| "generate_code_arg h (LabelRef l) = generate_code_label h l"
| "generate_code_arg h (VarRef v) = generate_code_var v"
| "generate_code_arg h (String s) = generate_code_string s"

definition generate_code_command :: "Heap \<Rightarrow> CompiledCommand \<Rightarrow> 'a CodeGenerator_scheme \<Rightarrow> 'a CodeGenerator_scheme result" where
  "generate_code_command h ccmd = seq (emplace_u16 (cmd_id ccmd) # map (generate_code_arg h) (args ccmd))"

fun generate_code :: "Heap \<Rightarrow> CompiledData \<Rightarrow> 'a CodeGenerator_scheme \<Rightarrow> 'a CodeGenerator_scheme result" where
  "generate_code h (Arg a) = generate_code_arg h a"
| "generate_code h (Command ccmd) = generate_code_command h ccmd"
| "generate_code h (LabelDef _) = Inr"
| "generate_code h (Hex data) = emplace_bytes (length data) data"

section \<open>\<open>CodeGenerator::compute_labels\<close> and \<open>CodeGenerator::generate\<close>\<close>

text \<open>
  The loop of \<open>compute_labels\<close>: \<open>offset\<close> is a \<open>uint32_t\<close>, to which the \<open>size_t\<close> of
  \<open>compiled_size\<close> is added; the labels are written in the store.
\<close>

definition set_local_offset :: "label_ref \<Rightarrow> 32 word \<Rightarrow> Heap \<Rightarrow> Heap" where
  "set_local_offset l off h =
     h\<lparr>labels_at := (labels_at h)(l := (labels_at h l)\<lparr>local_offset := Some off\<rparr>)\<rparr>"

fun compute_labels_loop :: "'a CodeGenerator_scheme \<Rightarrow> CompiledData list \<Rightarrow> Heap \<times> 32 word \<Rightarrow> Heap \<times> 32 word" where
  "compute_labels_loop cg [] (h, off) = (h, off)"
| "compute_labels_loop cg (LabelDef l # ops) (h, off) =
     compute_labels_loop cg ops (set_local_offset l off h, off)"
| "compute_labels_loop cg (op # ops) (h, off) =
     compute_labels_loop cg ops (h, off + of_nat (compiled_size op cg))"

definition compute_labels :: "'a CodeGenerator_scheme \<Rightarrow> Heap \<Rightarrow> Heap \<times> 32 word" where
  "compute_labels cg h = compute_labels_loop cg (compiled cg) (h, 0)"

definition generate :: "Heap \<Rightarrow> (nat \<Rightarrow> byte) \<Rightarrow> 'a CodeGenerator_scheme \<Rightarrow> 'a CodeGenerator_scheme result" where
  "generate h mem cg =
     (case script_size (scripts_at h (script cg)) of
        None \<Rightarrow> Inl (BadOptionalAccess, cg)
      | Some sz \<Rightarrow> seq (map (generate_code h) (compiled cg)) (setup_buffer (unat sz) mem cg))"


section \<open>The header: \<open>CompiledScmHeader\<close>\<close>

datatype Version = Liberty | Miami | SanAndreas

text \<open>
  Modelled from the spec: the fields of \<open>CompiledScmHeader\<close> (section 6 of the
  specification: the dialect, \<open>size_global_vars_space\<close>, the model names, the counts of
  mission and of streamed scripts, the script list). The sizes and counts are naturals.
  The source computes \<open>size_global_vars_space - 8\<close> in an unsigned type; the model's
  subtraction is the source's only from 8 on, which is the contract of the specification
  (\<open>size_global_vars_space \<ge> 8\<close>) and a hypothesis of every statement below that
  depends on it.
\<close>

record CompiledScmHeader =
  version :: Version
  size_global_vars_space :: nat
  models :: "byte list list"
  num_missions :: nat
  num_streamed :: nat
  scripts :: "Script list"

definition CompiledScmHeader_compiled_size :: "CompiledScmHeader \<Rightarrow> nat" where
  "CompiledScmHeader_compiled_size header =
     (case version header of
        SanAndreas \<Rightarrow>
          (let size_globals = size_global_vars_space header
           in 8 + (size_globals - 8) + 8 + 4 + (24 * (1 + length (models header)))
              + 8 + 4 + 4 + 2 + 2 + (4 * num_missions header) + 4
              + 8 + 4 + 4 + (28 * (1 + num_streamed header))
              + 8 + 4 + 8 + 4 + 1 + 1 + 2)
      | _ \<Rightarrow>
          (let size_globals = size_global_vars_space header
           in 8 + (size_globals - 8) + 8 + 4 + (24 * (1 + length (models header)))
              + 8 + 4 + 4 + 2 + 2 + (4 * num_missions header)))"

record CodeGeneratorData = CodeGeneratorBase +
  compiled_header :: CompiledScmHeader     \<comment> \<open>\<open>compiled\<close>\<close>

text \<open>
  \<open>nextseg_id\<close> is a counter that the source's lambda keeps; it is called once in each
  segment from the second on, in the order of the segments: its \<open>k\<close>-th call (from 0) returns
  \<open>k\<close> for SanAndreas and 0 otherwise.
\<close>

definition nextseg_id :: "Version \<Rightarrow> nat \<Rightarrow> byte" where
  "nextseg_id v k = (if v = SanAndreas then of_nat k else 0)"

text \<open>
  \<open>goto_rel(skip_bytes)\<close>: \<open>target\<close> is the \<open>int32_t\<close> of \<open>8 + skip_bytes + current_offset()\<close>.
\<close>

definition goto_rel :: "nat \<Rightarrow> 'a CodeGeneratorBase_scheme \<Rightarrow> 'a CodeGeneratorBase_scheme result" where
  "goto_rel skip_bytes codegen =
     (let target = (of_nat (8 + skip_bytes + current_offset codegen) :: 32 word)
      in seq [emplace_u16 0x0002, emplace_u8 1, emplace_i32 target] codegen)"

text \<open>The local variables that the loop over \<open>header.scripts\<close> computes.\<close>

record HeaderLocals =
  main_size :: "32 word"
  multifile_size :: "32 word"
  largest_mission_size :: "32 word"
  largest_streamed_size :: "32 word"
  missions :: "Script list"
  streameds :: "Script list"

fun scan_scripts :: "Script list \<Rightarrow> HeaderLocals \<Rightarrow> HeaderLocals option" where
  "scan_scripts [] st = Some st"
| "scan_scripts (sc # scs) st =
     (case script_size sc of
        None \<Rightarrow> None
      | Some sz \<Rightarrow>
          scan_scripts scs
            (if script_type sc = Mission then
               st\<lparr>missions := missions st @ [sc],
                  multifile_size := multifile_size st + sz,
                  largest_mission_size :=
                    (if largest_mission_size st < sz then sz else largest_mission_size st)\<rparr>
             else if script_type sc = StreamedScript then
               st\<lparr>streameds := streameds st @ [sc],
                  largest_streamed_size :=
                    (if largest_streamed_size st < sz then sz else largest_streamed_size st)\<rparr>
             else
               st\<lparr>main_size := main_size st + sz,
                  multifile_size := multifile_size st + sz\<rparr>))"

definition target_id :: "Version \<Rightarrow> byte" where
  "target_id v = (case v of Liberty \<Rightarrow> 0 | Miami \<Rightarrow> 0x6D | SanAndreas \<Rightarrow> 0x73)"

definition variables_segment :: "CompiledScmHeader \<Rightarrow> 'a CodeGeneratorBase_scheme \<Rightarrow> 'a CodeGeneratorBase_scheme result" where
  "variables_segment header =
     (let size_globals = size_global_vars_space header
      in seq [goto_rel (size_globals - 8),
              emplace_i8 (target_id (version header)),
              emplace_fill (size_globals - 8) 0])"

definition models_segment :: "CompiledScmHeader \<Rightarrow> 'a CodeGeneratorBase_scheme \<Rightarrow> 'a CodeGeneratorBase_scheme result" where
  "models_segment header =
     seq ([goto_rel (4 + (24 * (1 + length (models header)))),
           emplace_u8 (nextseg_id (version header) 0),
           emplace_u32 (of_nat (1 + length (models header))),
           emplace_chars 24 []]
          @ map (\<lambda>model. emplace_chars 24 model) (models header))"

definition mission_offset_entry :: "Script \<Rightarrow> 'a CodeGeneratorBase_scheme \<Rightarrow> 'a CodeGeneratorBase_scheme result" where
  "mission_offset_entry script_ptr codegen =
     (case script_offset script_ptr of
        None \<Rightarrow> Inl (BadOptionalAccess, codegen)
      | Some off \<Rightarrow> emplace_i32 off codegen)"

definition scm_info_segment :: "CompiledScmHeader \<Rightarrow> HeaderLocals \<Rightarrow> 'a CodeGeneratorBase_scheme \<Rightarrow> 'a CodeGeneratorBase_scheme result" where
  "scm_info_segment header st =
     (let rel_offset = 4 + 4 + 2 + 2 + (4 * length (missions st))
                       + (if version header = SanAndreas then 4 else 0)
      in seq ([goto_rel rel_offset,
               emplace_u8 (nextseg_id (version header) 1),
               emplace_u32 (main_size st),
               emplace_u32 (largest_mission_size st),
               emplace_u16 (of_nat (length (missions st))),
               emplace_u16 0]
              @ (if version header = SanAndreas then [emplace_u32 0] else [])
              @ map mission_offset_entry (missions st)))"

text \<open>\<open>::toupper\<close> in the C locale, on each byte of the name.\<close>

definition toupper :: "byte \<Rightarrow> byte" where
  "toupper c = (if 0x61 \<le> c \<and> c \<le> 0x7A then c - 0x20 else c)"

text \<open>The loop over \<open>streameds\<close>, with its running \<open>virtual_offset\<close>. The sizes are set: the
  loop over \<open>header.scripts\<close> has read each with \<open>value()\<close>.\<close>

fun streamed_entries :: "32 word \<Rightarrow> Script list \<Rightarrow> ('a CodeGeneratorBase_scheme \<Rightarrow> 'a CodeGeneratorBase_scheme result) list" where
  "streamed_entries virtual_offset [] = []"
| "streamed_entries virtual_offset (script_ptr # rest) =
     (case script_size script_ptr of
        None \<Rightarrow> [\<lambda>cg. Inl (BadOptionalAccess, cg)]
      | Some sz \<Rightarrow>
          [emplace_chars 20 (map toupper (path_stem script_ptr)),
           emplace_u32 virtual_offset,
           emplace_u32 sz]
          @ streamed_entries (virtual_offset + sz) rest)"

definition streamed_segment :: "CompiledScmHeader \<Rightarrow> HeaderLocals \<Rightarrow> 'a CodeGeneratorBase_scheme \<Rightarrow> 'a CodeGeneratorBase_scheme result" where
  "streamed_segment header st =
     seq ([goto_rel (4 + 4 + (28 * (1 + length (streameds st)))),
           emplace_u8 (nextseg_id (version header) 2),
           emplace_u32 (largest_streamed_size st),
           emplace_u32 (of_nat (1 + length (streameds st)))]
          @ streamed_entries (multifile_size st) (streameds st)
          @ [emplace_chars 20 [0x41, 0x41, 0x41],
             emplace_u32 0,
             emplace_u32 8])"

definition unknown_segment :: "CompiledScmHeader \<Rightarrow> 'a CodeGeneratorBase_scheme \<Rightarrow> 'a CodeGeneratorBase_scheme result" where
  "unknown_segment header =
     seq [goto_rel 4,
          emplace_u8 (nextseg_id (version header) 3),
          emplace_u32 0]"

definition unknown2_segment :: "CompiledScmHeader \<Rightarrow> 'a CodeGeneratorBase_scheme \<Rightarrow> 'a CodeGeneratorBase_scheme result" where
  "unknown2_segment header =
     (let size_globals = size_global_vars_space header
      in seq [goto_rel (4 + 1 + 1 + 2),
              emplace_u8 (nextseg_id (version header) 4),
              emplace_u32 (of_nat (size_globals - 8)),
              emplace_u8 62,
              emplace_u8 2,
              emplace_u16 0])"

text \<open>
  The segments that \<open>generate_code\<close> writes for a header, in their order. The
  \<open>assert\<close> at its start (the version is one of the three) holds for every value of
  \<open>Version\<close>; the loop over \<open>header.scripts\<close> runs before the first byte is written.
\<close>

definition header_segments :: "CompiledScmHeader \<Rightarrow> HeaderLocals \<Rightarrow> ('a CodeGeneratorBase_scheme \<Rightarrow> 'a CodeGeneratorBase_scheme result) list" where
  "header_segments header st =
     [variables_segment header, models_segment header, scm_info_segment header st]
     @ (if version header = SanAndreas then [streamed_segment header st] else [])
     @ (if version header = SanAndreas then [unknown_segment header] else [])
     @ (if version header = SanAndreas then [unknown2_segment header] else [])"

definition header_locals :: "CompiledScmHeader \<Rightarrow> HeaderLocals option" where
  "header_locals header =
     (let head_size = (of_nat (CompiledScmHeader_compiled_size header) :: 32 word)
      in scan_scripts (scripts header)
           \<lparr>main_size = head_size, multifile_size = head_size,
            largest_mission_size = 0, largest_streamed_size = 0,
            missions = [], streameds = []\<rparr>)"

definition generate_code_header :: "CompiledScmHeader \<Rightarrow> 'a CodeGeneratorBase_scheme \<Rightarrow> 'a CodeGeneratorBase_scheme result" where
  "generate_code_header header codegen =
     (case header_locals header of
        None \<Rightarrow> Inl (BadOptionalAccess, codegen)
      | Some st \<Rightarrow> seq (header_segments header st) codegen)"

definition generate_data :: "(nat \<Rightarrow> byte) \<Rightarrow> CodeGeneratorData \<Rightarrow> CodeGeneratorData result" where
  "generate_data mem cg =
     generate_code_header (compiled_header cg)
       (setup_buffer (CompiledScmHeader_compiled_size (compiled_header cg)) mem cg)"

section \<open>Vocabulary of the statements\<close>

text \<open>
  A sink is well formed when its buffer has the size \<open>max_offset\<close> (the invariant noted at
  the declaration of \<open>bytecode\<close>) and its cursor is within the buffer. \<open>setup_buffer\<close>
  gives such a sink, and every \<open>emplace_*\<close> that returns keeps it so.
\<close>

definition wf_sink :: "'a CodeGeneratorBase_scheme \<Rightarrow> bool" where
  "wf_sink cg \<longleftrightarrow> length (bytecode cg) = max_offset cg \<and> offset cg \<le> max_offset cg"

text \<open>\<open>put bs cg\<close>: the sink after the bytes \<open>bs\<close> have been written at the cursor.\<close>

definition put :: "byte list \<Rightarrow> 'a CodeGeneratorBase_scheme \<Rightarrow> 'a CodeGeneratorBase_scheme" where
  "put bs cg = cg\<lparr>bytecode := write_at (offset cg) bs (bytecode cg), offset := offset cg + length bs\<rparr>"

text \<open>\<open>run_error r\<close>: how the run \<open>r\<close> ended, when it did not return.\<close>

definition run_error :: "'s result \<Rightarrow> error option" where
  "run_error r = (case r of Inl (e, s) \<Rightarrow> Some e | Inr s \<Rightarrow> None)"

text \<open>Little-endian byte sequences.\<close>

definition le16 :: "16 word \<Rightarrow> byte list" where
  "le16 w = [ucast w, ucast (drop_bit 8 w)]"

definition le32 :: "32 word \<Rightarrow> byte list" where
  "le32 w = [ucast w, ucast (drop_bit 8 w), ucast (drop_bit 16 w), ucast (drop_bit 24 w)]"

text \<open>
  \<open>emits n f\<close>: whenever the emitter \<open>f\<close> returns, the cursor has advanced by \<open>n\<close> and the
  capacity, the options and the fields of the derived generator are as before; and \<open>f\<close>
  returns whenever \<open>n\<close> bytes fit.
\<close>

definition emits :: "nat \<Rightarrow> ('a CodeGeneratorBase_scheme \<Rightarrow> 'a CodeGeneratorBase_scheme result) \<Rightarrow> bool" where
  "emits n f \<longleftrightarrow>
     (\<forall>cg. (\<forall>cg'. f cg = Inr cg' \<longrightarrow>
               offset cg' = offset cg + n \<and> max_offset cg' = max_offset cg
               \<and> opt (program cg') = opt (program cg)
               \<and> CodeGeneratorBase.more cg' = CodeGeneratorBase.more cg)
          \<and> (offset cg + n \<le> max_offset cg \<longrightarrow> (\<exists>cg'. f cg = Inr cg')))"

text \<open>
  \<open>writes bs f\<close>: on a well-formed sink, \<open>f\<close> writes exactly the bytes \<open>bs\<close> when they fit,
  and ends the run when they do not.
\<close>

definition writes :: "byte list \<Rightarrow> ('a CodeGeneratorBase_scheme \<Rightarrow> 'a CodeGeneratorBase_scheme result) \<Rightarrow> bool" where
  "writes bs f \<longleftrightarrow>
     (\<forall>cg. wf_sink cg \<longrightarrow>
        (offset cg + length bs \<le> max_offset cg \<longrightarrow> f cg = Inr (put bs cg))
      \<and> (max_offset cg < offset cg + length bs \<longrightarrow> (\<exists>e s. f cg = Inl (e, s))))"

text \<open>Concrete inputs for the examples: a sink of capacity \<open>n\<close> over memory that holds
  \<open>0xAA\<close> everywhere, and the options.\<close>

definition options :: "bool \<Rightarrow> bool \<Rightarrow> bool \<Rightarrow> bool \<Rightarrow> Options" where
  "options zf hf lo tp =
     \<lparr>optimize_zero_floats = zf, use_half_float = hf, use_local_offsets = lo,
      has_text_label_prefix = tp\<rparr>"

definition fresh_sink :: "Options \<Rightarrow> nat \<Rightarrow> CodeGeneratorBase" where
  "fresh_sink opts n =
     setup_buffer n (\<lambda>_. 0xAA)
       \<lparr>program = \<lparr>opt = opts, reported = []\<rparr>, bytecode = [], offset = 0, max_offset = 0\<rparr>"

definition fresh_codegen :: "Options \<Rightarrow> nat \<Rightarrow> CodeGenerator" where
  "fresh_codegen opts n =
     setup_buffer n (\<lambda>_. 0xAA)
       \<lparr>program = \<lparr>opt = opts, reported = []\<rparr>, bytecode = [], offset = 0, max_offset = 0,
        script = 0, compiled = []\<rparr>"

text \<open>A store in which every script has the type \<open>t\<close> and the offset \<open>so\<close>, and every
  label belongs to script 0 and has the local offset \<open>lo\<close>.\<close>

definition heap_with :: "ScriptType \<Rightarrow> 32 word \<Rightarrow> 32 word \<Rightarrow> Heap" where
  "heap_with t so lo =
     \<lparr>scripts_at = (\<lambda>_. \<lparr>path_stem = [], script_type = t, script_offset = Some so,
                           script_size = Some 0x20\<rparr>),
      labels_at = (\<lambda>_. \<lparr>label_script = 0, local_offset = Some lo\<rparr>)\<rparr>"

text \<open>
  What the emitter demands of a node, beyond room in the sink: the bounds that it checks
  with \<open>Expects\<close>, the optionals that it reads with \<open>value()\<close>, and the assertion on the
  script of a label.
\<close>

definition label_resolved :: "Heap \<Rightarrow> label_ref \<Rightarrow> 'a CodeGenerator_scheme \<Rightarrow> bool" where
  "label_resolved h l codegen \<longleftrightarrow>
     (if use_local_offsets (opt (program codegen)) then Label_offset h l \<noteq> None
      else if script_type (scripts_at h (label_script (labels_at h l))) = Mission
            \<or> script_type (scripts_at h (label_script (labels_at h l))) = StreamedScript
      then label_script (labels_at h l) = script codegen \<and> local_offset (labels_at h l) \<noteq> None
      else Label_offset h l \<noteq> None)"

definition string_fits :: "CompiledString \<Rightarrow> bool" where
  "string_fits s \<longleftrightarrow>
     (case str_type s of
        TextLabel8 \<Rightarrow> length (storage s) \<le> 8
      | TextLabel16 \<Rightarrow> length (storage s) \<le> 16
      | StringVar \<Rightarrow> length (storage s) \<le> 127
      | String128 \<Rightarrow> True)"

definition var_counted :: "CompiledVar \<Rightarrow> bool" where
  "var_counted v \<longleftrightarrow>
     (case index v of Some (IndexVar _) \<Rightarrow> count (var v) \<noteq> None | _ \<Rightarrow> True)"

fun well_formed_arg :: "Heap \<Rightarrow> ArgVariant \<Rightarrow> 'a CodeGenerator_scheme \<Rightarrow> bool" where
  "well_formed_arg h (LabelRef l) codegen = label_resolved h l codegen"
| "well_formed_arg h (VarRef v) codegen = var_counted v"
| "well_formed_arg h (String s) codegen = string_fits s"
| "well_formed_arg h _ codegen = True"

fun well_formed :: "Heap \<Rightarrow> CompiledData \<Rightarrow> 'a CodeGenerator_scheme \<Rightarrow> bool" where
  "well_formed h (Arg a) codegen = well_formed_arg h a codegen"
| "well_formed h (Command cmd) codegen = list_all (\<lambda>a. well_formed_arg h a codegen) (args cmd)"
| "well_formed h (LabelDef _) codegen = True"
| "well_formed h (Hex _) codegen = True"


text \<open>\<open>same_frame cg cg'\<close>: the capacity, the options and the fields of the derived generator
  are the same in both.\<close>

definition same_frame :: "'a CodeGeneratorBase_scheme \<Rightarrow> 'a CodeGeneratorBase_scheme \<Rightarrow> bool" where
  "same_frame cg cg' \<longleftrightarrow>
     max_offset cg' = max_offset cg \<and> opt (program cg') = opt (program cg)
     \<and> CodeGeneratorBase.more cg' = CodeGeneratorBase.more cg"


text \<open>The sum of the sizes of the arguments of a command.\<close>

definition args_size :: "ArgVariant list \<Rightarrow> 'a CodeGenerator_scheme \<Rightarrow> nat" where
  "args_size as cg = sum_list (map (\<lambda>a. compiled_size_arg a cg) as)"


text \<open>The bytes of a script: the sum of \<open>compiled_size\<close> over the nodes that are not label
  definitions.\<close>

fun is_LabelDef :: "CompiledData \<Rightarrow> bool" where
  "is_LabelDef (LabelDef _) = True"
| "is_LabelDef _ = False"

definition nonlabel_size :: "'a CodeGenerator_scheme \<Rightarrow> CompiledData list \<Rightarrow> nat" where
  "nonlabel_size cg ops = sum_list (map (\<lambda>op. compiled_size op cg) (filter (\<lambda>op. \<not> is_LabelDef op) ops))"

text \<open>An example script: a command of two bytes, two label definitions in a row, a command of
  four bytes, a third label definition.\<close>

definition example_ir :: "CompiledData list" where
  "example_ir =
     [Command \<lparr>cmd_id = 0x004E, args = []\<rparr>, LabelDef 1, LabelDef 2,
      Command \<lparr>cmd_id = 0x0001, args = [Int8 5]\<rparr>, LabelDef 3]"

text \<open>The seven bytes of the trampoline with the target \<open>t\<close>: the opcode \<open>0x0002\<close>, the tag
  \<open>0x01\<close> and \<open>t\<close>, little-endian.\<close>

definition trampoline :: "32 word \<Rightarrow> byte list" where
  "trampoline t = [0x02, 0x00, 0x01] @ le32 t"

text \<open>
  \<open>extends n f\<close>: whenever \<open>f\<close> returns on a well-formed sink, the sink is well formed, its
  cursor has advanced by \<open>n\<close>, its capacity is the same, and the bytes before the old
  cursor are as they were.
\<close>

definition extends :: "nat \<Rightarrow> ('a CodeGeneratorBase_scheme \<Rightarrow> 'a CodeGeneratorBase_scheme result) \<Rightarrow> bool" where
  "extends n f \<longleftrightarrow>
     (\<forall>cg cg'. wf_sink cg \<and> f cg = Inr cg' \<longrightarrow>
        wf_sink cg' \<and> offset cg' = offset cg + n \<and> max_offset cg' = max_offset cg
        \<and> take (offset cg) (bytecode cg') = take (offset cg) (bytecode cg))"

text \<open>
  \<open>trampolined seg\<close>: whenever the segment emitter \<open>seg\<close> returns on a well-formed sink, it
  has written at least eight bytes and kept what was before them, and the first seven are
  the trampoline whose target is the cursor at which \<open>seg\<close> returns.
\<close>

definition trampolined :: "('a CodeGeneratorBase_scheme \<Rightarrow> 'a CodeGeneratorBase_scheme result) \<Rightarrow> bool" where
  "trampolined seg \<longleftrightarrow>
     (\<forall>cg cg'. wf_sink cg \<and> seg cg = Inr cg' \<longrightarrow>
        wf_sink cg' \<and> offset cg + 8 \<le> offset cg' \<and> max_offset cg' = max_offset cg
        \<and> take (offset cg) (bytecode cg') = take (offset cg) (bytecode cg)
        \<and> bytes_between (offset cg) (offset cg + 7) cg' = trampoline (of_nat (offset cg')))"

text \<open>The argument of \<open>goto_rel\<close> in the SCM info segment (\<open>rel_offset\<close>), and the number of
  bytes that the segments of a header take together: for each segment, 8 and the argument of
  its \<open>goto_rel\<close>.\<close>

definition scm_info_skip :: "CompiledScmHeader \<Rightarrow> HeaderLocals \<Rightarrow> nat" where
  "scm_info_skip header st =
     4 + 4 + 2 + 2 + (4 * length (missions st)) + (if version header = SanAndreas then 4 else 0)"


definition header_emitted_size :: "CompiledScmHeader \<Rightarrow> HeaderLocals \<Rightarrow> nat" where
  "header_emitted_size header st =
     (8 + (size_global_vars_space header - 8))
     + (8 + (4 + (24 * (1 + length (models header)))))
     + (8 + scm_info_skip header st)
     + (if version header = SanAndreas
        then (8 + (4 + 4 + (28 * (1 + length (streameds st))))) + (8 + 4) + (8 + (4 + 1 + 1 + 2))
        else 0)"

text \<open>The scripts of a header of one type.\<close>

definition scripts_of :: "ScriptType \<Rightarrow> CompiledScmHeader \<Rightarrow> Script list" where
  "scripts_of t header = filter (\<lambda>sc. script_type sc = t) (scripts header)"

text \<open>The cursor of a run that returned.\<close>

definition final_offset :: "'a CodeGeneratorBase_scheme result \<Rightarrow> nat option" where
  "final_offset r = (case r of Inl _ \<Rightarrow> None | Inr cg \<Rightarrow> Some (offset cg))"

text \<open>Example headers: one without scripts, and one for SanAndreas with a mission, a
  streamed script and a main script.\<close>

definition bare_header :: "Version \<Rightarrow> nat \<Rightarrow> nat \<Rightarrow> nat \<Rightarrow> CompiledScmHeader" where
  "bare_header v size_globals missions_count streamed_count =
     \<lparr>version = v, size_global_vars_space = size_globals, models = [],
      num_missions = missions_count, num_streamed = streamed_count, scripts = []\<rparr>"

definition example_scripts :: "Script list" where
  "example_scripts =
     [\<lparr>path_stem = [0x6D, 0x31], script_type = Mission, script_offset = Some 0x200, script_size = Some 0x10\<rparr>,
      \<lparr>path_stem = [0x73, 0x31], script_type = StreamedScript, script_offset = None, script_size = Some 0x20\<rparr>,
      \<lparr>path_stem = [0x6D, 0x61, 0x69, 0x6E], script_type = Main, script_offset = Some 0, script_size = Some 0x30\<rparr>]"

definition example_header :: CompiledScmHeader where
  "example_header =
     \<lparr>version = SanAndreas, size_global_vars_space = 8, models = [],
      num_missions = 1, num_streamed = 1, scripts = example_scripts\<rparr>"

definition data_codegen :: "CompiledScmHeader \<Rightarrow> CodeGeneratorData" where
  "data_codegen header =
     \<lparr>program = \<lparr>opt = options False False False False, reported = []\<rparr>, bytecode = [],
      offset = 0, max_offset = 0, compiled_header = header\<rparr>"

section \<open>Properties of the sink\<close>

lemma write_at_write_at:
  "pos + length as \<le> length buf \<Longrightarrow>
   write_at (pos + length as) bs (write_at pos as buf) = write_at pos (as @ bs) buf"
  by (simp add: write_at_def ac_simps)

lemma put_put:
  "offset cg + length as \<le> length (bytecode cg) \<Longrightarrow> put bs (put as cg) = put (as @ bs) cg"
  by (simp add: put_def write_at_write_at add.assoc)

lemma put_Nil [simp]: "put [] cg = cg"
  by (simp add: put_def write_at_def)

lemma length_write_at:
  "pos + length bs \<le> length buf \<Longrightarrow> length (write_at pos bs buf) = length buf"
  by (simp add: write_at_def)

lemma write_at_single: "pos < length buf \<Longrightarrow> buf[pos := v] = write_at pos [v] buf"
  by (simp add: write_at_def upd_conv_take_nth_drop)

lemma put_simps [simp]:
  "offset (put bs cg) = offset cg + length bs"
  "max_offset (put bs cg) = max_offset cg"
  "program (put bs cg) = program cg"
  "CodeGeneratorBase.more (put bs cg) = CodeGeneratorBase.more cg"
  by (simp_all add: put_def)

lemma wf_put: "wf_sink cg \<Longrightarrow> offset cg + length bs \<le> max_offset cg \<Longrightarrow> wf_sink (put bs cg)"
  by (simp add: wf_sink_def put_def length_write_at)

lemma emitted_put:
  "offset cg \<le> length (bytecode cg) \<Longrightarrow> emitted (put bs cg) = emitted cg @ bs"
  by (simp add: emitted_def put_def write_at_def)

lemma bytes_between_put:
  "offset cg + length bs \<le> length (bytecode cg) \<Longrightarrow>
   bytes_between (offset cg) (offset cg + length bs) (put bs cg) = bs"
  by (simp add: bytes_between_def put_def write_at_def)

lemma bytes_between_put_prefix:
  "offset cg + length as \<le> length (bytecode cg) \<Longrightarrow>
   bytes_between (offset cg) (offset cg + length as) (put (as @ bs) cg) = as"
  by (simp add: bytes_between_def put_def write_at_def)

lemma bytes_between_put_suffix:
  "offset cg + length as + length bs \<le> length (bytecode cg) \<Longrightarrow>
   bytes_between (offset cg + length as) (offset cg + length as + length bs) (put (as @ bs) cg) = bs"
  by (simp add: bytes_between_def put_def write_at_def)

subsection \<open>Emitters advance the cursor by their size\<close>

lemma emits_emplace_u8: "emits 1 (emplace_u8 v)"
  by (auto simp: emits_def emplace_u8_def)

lemma emits_seq_Nil: "emits 0 (seq [])"
  by (simp add: emits_def)

lemma emits_bind:
  fixes f g :: "'a CodeGeneratorBase_scheme \<Rightarrow> 'a CodeGeneratorBase_scheme result"
  assumes "emits n f" and "emits m g"
  shows "emits (n + m) (\<lambda>cg. bind_r (f cg) g)"
  unfolding emits_def
proof (intro allI conjI impI)
  fix cg cg' :: "'a CodeGeneratorBase_scheme"
  assume "bind_r (f cg) g = Inr cg'"
  then obtain c1 where c1: "f cg = Inr c1" "g c1 = Inr cg'"
    by (auto simp: bind_r_def split: sum.splits)
  from assms c1 show "offset cg' = offset cg + (n + m)" "max_offset cg' = max_offset cg"
    "opt (program cg') = opt (program cg)"
    "CodeGeneratorBase.more cg' = CodeGeneratorBase.more cg"
    unfolding emits_def by (metis add.assoc)+
next
  fix cg :: "'a CodeGeneratorBase_scheme"
  assume fit: "offset cg + (n + m) \<le> max_offset cg"
  with assms(1) obtain c1 where c1: "f cg = Inr c1" unfolding emits_def
    by (metis add_leD1 add.assoc)
  with assms(1) have "offset c1 = offset cg + n" "max_offset c1 = max_offset cg"
    unfolding emits_def by blast+
  with fit assms(2) obtain c2 where "g c1 = Inr c2" unfolding emits_def
    by (metis add.assoc)
  with c1 show "\<exists>cg'. bind_r (f cg) g = Inr cg'" by (simp add: bind_r_def)
qed

lemma emits_seq_Cons: "emits n f \<Longrightarrow> emits m (seq fs) \<Longrightarrow> emits (n + m) (seq (f # fs))"
  using emits_bind [of n f m "seq fs"] by (simp add: emits_def)

lemma seq_append: "seq (fs @ gs) = (\<lambda>cg. bind_r (seq fs cg) (seq gs))"
  by (induction fs) (auto simp: bind_r_def fun_eq_iff split: sum.splits)

lemma emits_seq_append:
  "emits n (seq fs) \<Longrightarrow> emits m (seq gs) \<Longrightarrow> emits (n + m) (seq (fs @ gs))"
  unfolding seq_append by (rule emits_bind)

lemma emits_seq_u8: "emits (length vs) (seq (map emplace_u8 vs))"
proof (induction vs)
  case Nil
  show ?case by (simp add: emits_def)
next
  case (Cons v vs)
  from emits_bind [OF emits_emplace_u8 Cons.IH] show ?case by simp
qed

lemma byte_of_masked:
  fixes v :: "'a::len word"
  assumes "m = push_bit k (mask 8)"
  shows "(ucast (drop_bit k (v AND m)) :: byte) = ucast (drop_bit k v)"
  by (rule bit_word_eqI) (auto simp: assms bit_simps dest: bit_imp_le_length)

lemma emplace_u16_eq: "emplace_u16 v = seq (map emplace_u8 (le16 v))"
proof -
  have "(ucast (drop_bit 0 (v AND 0x00FF)) :: byte) = ucast (drop_bit 0 v)"
    by (rule byte_of_masked) (simp add: mask_eq_exp_minus_1)
  moreover have "(ucast (drop_bit 8 (v AND 0xFF00)) :: byte) = ucast (drop_bit 8 v)"
    by (rule byte_of_masked) (simp add: mask_eq_exp_minus_1)
  ultimately show ?thesis
    by (simp add: emplace_u16_def le16_def del: drop_bit_and)
qed

lemma emplace_u32_eq: "emplace_u32 v = seq (map emplace_u8 (le32 v))"
proof -
  have "(ucast (drop_bit 0 (v AND 0x000000FF)) :: byte) = ucast (drop_bit 0 v)"
    by (rule byte_of_masked) (simp add: mask_eq_exp_minus_1)
  moreover have "(ucast (drop_bit 8 (v AND 0x0000FF00)) :: byte) = ucast (drop_bit 8 v)"
    by (rule byte_of_masked) (simp add: mask_eq_exp_minus_1)
  moreover have "(ucast (drop_bit 16 (v AND 0x00FF0000)) :: byte) = ucast (drop_bit 16 v)"
    by (rule byte_of_masked) (simp add: mask_eq_exp_minus_1)
  moreover have "(ucast (drop_bit 24 (v AND 0xFF000000)) :: byte) = ucast (drop_bit 24 v)"
    by (rule byte_of_masked) (simp add: mask_eq_exp_minus_1)
  ultimately show ?thesis
    by (simp add: emplace_u32_def le32_def del: drop_bit_and)
qed

lemma emits_emplace_u16: "emits 2 (emplace_u16 v)"
  using emits_seq_u8 [of "le16 v"] by (simp add: emplace_u16_eq le16_def numeral_2_eq_2)

lemma emits_emplace_u32: "emits 4 (emplace_u32 v)"
  using emits_seq_u8 [of "le32 v"] by (simp add: emplace_u32_eq le32_def eval_nat_numeral)

lemma size_t_add_le: "a + b \<le> c \<Longrightarrow> size_t_add a b \<le> c"
  unfolding size_t_add_def by (rule le_trans [OF mod_less_eq_dividend])

lemma emits_emplace_chars: "emits n (emplace_chars n s)"
  by (auto simp: emits_def emplace_chars_def size_t_add_le split: if_splits)

lemma emits_emplace_bytes: "emits n (emplace_bytes n s)"
  by (auto simp: emits_def emplace_bytes_def size_t_add_le split: if_splits)

lemma emits_emplace_fill: "emits n (emplace_fill n b)"
  by (auto simp: emits_def emplace_fill_def size_t_add_le split: if_splits)


subsection \<open>Emitters write their bytes\<close>

lemma writes_emplace_u8: "writes [v] (emplace_u8 v)"
  by (auto simp: writes_def emplace_u8_def put_def wf_sink_def write_at_single)

lemma writes_bind:
  fixes f g :: "'a CodeGeneratorBase_scheme \<Rightarrow> 'a CodeGeneratorBase_scheme result"
  assumes f: "writes as f" and g: "writes bs g"
  shows "writes (as @ bs) (\<lambda>cg. bind_r (f cg) g)"
  unfolding writes_def
proof (intro allI impI conjI)
  fix cg :: "'a CodeGeneratorBase_scheme"
  assume wf: "wf_sink cg" and fit: "offset cg + length (as @ bs) \<le> max_offset cg"
  from f wf fit have 1: "f cg = Inr (put as cg)" by (simp add: writes_def)
  from wf fit have "wf_sink (put as cg)" by (simp add: wf_put)
  with g fit have "g (put as cg) = Inr (put bs (put as cg))" by (simp add: writes_def)
  moreover from wf fit have "put bs (put as cg) = put (as @ bs) cg"
    by (simp add: put_put wf_sink_def)
  ultimately show "bind_r (f cg) g = Inr (put (as @ bs) cg)" using 1 by (simp add: bind_r_def)
next
  fix cg :: "'a CodeGeneratorBase_scheme"
  assume wf: "wf_sink cg" and over: "max_offset cg < offset cg + length (as @ bs)"
  show "\<exists>e s. bind_r (f cg) g = Inl (e, s)"
  proof (cases "offset cg + length as \<le> max_offset cg")
    case True
    with f wf have 1: "f cg = Inr (put as cg)" by (simp add: writes_def)
    from wf True have "wf_sink (put as cg)" by (simp add: wf_put)
    with g over obtain e s where "g (put as cg) = Inl (e, s)"
      unfolding writes_def by (fastforce simp: add.assoc)
    with 1 show ?thesis by (simp add: bind_r_def)
  next
    case False
    with f wf obtain e s where "f cg = Inl (e, s)" unfolding writes_def by fastforce
    then show ?thesis by (simp add: bind_r_def)
  qed
qed

lemma writes_Inr: "writes [] Inr"
  by (auto simp: writes_def wf_sink_def)

lemma writes_seq_Cons: "writes as f \<Longrightarrow> writes bs (seq fs) \<Longrightarrow> writes (as @ bs) (seq (f # fs))"
  using writes_bind [of as f bs "seq fs"] by (simp add: writes_def)

lemma writes_seq_append:
  "writes as (seq fs) \<Longrightarrow> writes bs (seq gs) \<Longrightarrow> writes (as @ bs) (seq (fs @ gs))"
  unfolding seq_append by (rule writes_bind)

lemma writes_seq_u8: "writes vs (seq (map emplace_u8 vs))"
proof (induction vs)
  case Nil
  show ?case by (auto simp: writes_def wf_sink_def)
next
  case (Cons v vs)
  from writes_bind [OF writes_emplace_u8 Cons.IH] show ?case by simp
qed

lemma writes_emplace_u16: "writes (le16 v) (emplace_u16 v)"
  by (simp add: emplace_u16_eq writes_seq_u8)

lemma writes_emplace_u32: "writes (le32 v) (emplace_u32 v)"
  by (simp add: emplace_u32_eq writes_seq_u8)

lemma length_strncpy [simp]: "length (strncpy s n) = n"
  by (simp add: strncpy_def strlen_def)

lemma writes_emplace_chars: "writes (strncpy s n) (emplace_chars n s)"
  by (auto simp: writes_def emplace_chars_def put_def size_t_add_le)

lemma writes_emplace_bytes: "n \<le> length data \<Longrightarrow> writes (take n data) (emplace_bytes n data)"
  by (auto simp: writes_def emplace_bytes_def put_def size_t_add_le)

lemma writes_emplace_fill: "writes (replicate n b) (emplace_fill n b)"
  by (auto simp: writes_def emplace_fill_def put_def size_t_add_le)

lemma seq_u8_overflow:
  "wf_sink cg \<Longrightarrow> max_offset cg < offset cg + length vs \<Longrightarrow>
   seq (map emplace_u8 vs) cg = Inl (AssertionFailed, put (take (max_offset cg - offset cg) vs) cg)"
proof (induction vs arbitrary: cg)
  case Nil
  then show ?case by (simp add: wf_sink_def)
next
  case (Cons v vs)
  show ?case
  proof (cases "offset cg + 1 \<le> max_offset cg")
    case True
    with Cons.prems have 1: "emplace_u8 v cg = Inr (put [v] cg)"
      by (simp add: emplace_u8_def put_def wf_sink_def write_at_single)
    from Cons.prems True have wf: "wf_sink (put [v] cg)" by (simp add: wf_put)
    from Cons.prems have "max_offset (put [v] cg) < offset (put [v] cg) + length vs" by simp
    from Cons.IH [OF wf this] have
      "seq (map emplace_u8 vs) (put [v] cg) =
         Inl (AssertionFailed, put (take (max_offset cg - (offset cg + 1)) vs) (put [v] cg))"
      by simp
    moreover from Cons.prems True have
      "put (take (max_offset cg - (offset cg + 1)) vs) (put [v] cg)
         = put ([v] @ take (max_offset cg - (offset cg + 1)) vs) cg"
      by (intro put_put) (simp add: wf_sink_def)
    moreover from True have
      "[v] @ take (max_offset cg - (offset cg + 1)) vs = take (max_offset cg - offset cg) (v # vs)"
    proof -
      from True obtain k where k: "max_offset cg - offset cg = Suc k" "max_offset cg - (offset cg + 1) = k"
        by (cases "max_offset cg - offset cg") auto
      then show ?thesis by simp
    qed
    ultimately show ?thesis using 1 by (simp add: bind_r_def)
  next
    case False
    with Cons.prems have "max_offset cg - offset cg = 0" by (simp add: wf_sink_def)
    with False show ?thesis by (simp add: bind_r_def emplace_u8_def)
  qed
qed


subsection \<open>The example sinks\<close>

lemma fresh_sink_simps:
  "offset (fresh_sink opts n) = 0"
  "max_offset (fresh_sink opts n) = n"
  "bytecode (fresh_sink opts n) = replicate n 0xAA"
  "program (fresh_sink opts n) = \<lparr>opt = opts, reported = []\<rparr>"
  by (simp_all add: fresh_sink_def setup_buffer_def map_replicate_const)

lemma wf_fresh_sink: "wf_sink (fresh_sink opts n)"
  by (simp add: wf_sink_def fresh_sink_simps)

lemma fresh_codegen_simps:
  "offset (fresh_codegen opts n) = 0"
  "max_offset (fresh_codegen opts n) = n"
  "bytecode (fresh_codegen opts n) = replicate n 0xAA"
  "program (fresh_codegen opts n) = \<lparr>opt = opts, reported = []\<rparr>"
  "script (fresh_codegen opts n) = 0"
  by (simp_all add: fresh_codegen_def setup_buffer_def map_replicate_const)

lemma wf_fresh_codegen: "wf_sink (fresh_codegen opts n)"
  by (simp add: wf_sink_def fresh_codegen_simps)

lemma le32_num: "le32 0x12345678 = [0x78, 0x56, 0x34, 0x12]"
  by (simp add: le32_def)


subsection \<open>Strings\<close>

lemma replicate_2: "replicate 2 x = [x, x]"
  by (simp add: eval_nat_numeral)

lemma replicate_3: "replicate 3 x = [x, x, x]"
  by (simp add: eval_nat_numeral)

lemma writes_seq_Nil: "writes [] (seq [])"
  by (auto simp: writes_def wf_sink_def)

lemma bytes_between_put_n:
  "wf_sink cg \<Longrightarrow> n = length bs \<Longrightarrow> offset cg + n \<le> max_offset cg \<Longrightarrow>
   bytes_between (offset cg) (offset cg + n) (put bs cg) = bs"
  using bytes_between_put [of cg bs] by (simp add: wf_sink_def)

lemma writesD:
  "writes bs f \<Longrightarrow> wf_sink cg \<Longrightarrow> offset cg + length bs \<le> max_offset cg \<Longrightarrow> f cg = Inr (put bs cg)"
  by (simp add: writes_def)

lemma strncpy_short: "strlen s \<le> n \<Longrightarrow> strncpy s n = c_string s @ replicate (n - strlen s) 0"
  by (simp add: strncpy_def strlen_def)

lemma c_string_id: "0 \<notin> set s \<Longrightarrow> c_string s = s"
  by (auto simp: c_string_def takeWhile_eq_all_conv)

lemma writes_text_label8_prefixed:
  "has_text_label_prefix (opt (program cg)) \<Longrightarrow> length (storage str) \<le> 8 \<Longrightarrow> str_type str = TextLabel8 \<Longrightarrow>
   generate_code_string str cg = seq [emplace_u8 9, emplace_chars 8 (storage str)] cg"
  by (simp add: generate_code_string_def expects_def)


subsection \<open>Literals\<close>

lemma writes_seq2: "writes as f \<Longrightarrow> writes bs g \<Longrightarrow> writes (as @ bs) (seq [f, g])"
  using writes_seq_Cons [OF _ writes_seq_Cons [OF _ writes_seq_Nil], of as f bs g] by simp

lemma writes_generate_code_int8: "writes [0x04, v] (generate_code_int8 v)"
  unfolding generate_code_int8_def emplace_i8_def
  using writes_seq2 [OF writes_emplace_u8 writes_emplace_u8] by simp

lemma writes_generate_code_int16: "writes (0x05 # le16 v) (generate_code_int16 v)"
  unfolding generate_code_int16_def emplace_i16_def
  using writes_seq2 [OF writes_emplace_u8 writes_emplace_u16] by simp

lemma writes_generate_code_int32: "writes (0x01 # le32 v) (generate_code_int32 v)"
  unfolding generate_code_int32_def emplace_i32_def
  using writes_seq2 [OF writes_emplace_u8 writes_emplace_u32] by simp

lemma writes_float_half: "writes (0x06 # le16 w) (seq [emplace_u8 6, emplace_i16 w])"
  unfolding emplace_i16_def
  using writes_seq2 [OF writes_emplace_u8 writes_emplace_u16] by simp

lemma writes_float_raw: "writes (0x06 # le32 w) (seq [emplace_u8 6, emplace_u32 w])"
  using writes_seq2 [OF writes_emplace_u8 writes_emplace_u32] by simp

lemma length_le16 [simp]: "length (le16 w) = 2"
  by (simp add: le16_def)

lemma length_le32 [simp]: "length (le32 w) = 4"
  by (simp add: le32_def)

lemma float_one_half: "float_x16_to_int16 0x3F800000 = 16"
  by (simp add: float_x16_to_int16_def Let_def)

lemma float_magnitude_x16:
  "float_magnitude f * 16
     = real ((if float_exponent f = 0 then float_fraction f else 2 ^ 23 + float_fraction f)
             * 2 ^ (if float_exponent f = 0 then 1 else float_exponent f)) / real (2 ^ 146)"
  by (simp add: float_magnitude_def field_simps)

lemma floor_nat_div: "\<lfloor>real a / real b\<rfloor> = int (a div b)"
  by (simp add: floor_divide_of_nat_eq)

lemma shift_div_gen:
  "(a * 2 ^ x) div 2 ^ k = (if k \<le> x then a * 2 ^ (x - k) else a div 2 ^ (k - x))" for a :: nat
proof (cases "k \<le> x")
  case True
  then have "(2::nat) ^ x = 2 ^ (x - k) * 2 ^ k" by (simp flip: power_add)
  then show ?thesis using True by simp
next
  case False
  then have "(2::nat) ^ k = 2 ^ x * 2 ^ (k - x)" by (simp flip: power_add)
  then have "(a * 2 ^ x) div 2 ^ k = (a * 2 ^ x) div (2 ^ x * 2 ^ (k - x))" by simp
  also have "\<dots> = a div 2 ^ (k - x)" by (simp add: ac_simps)
  finally show ?thesis using False by simp
qed

lemmas shift_div = shift_div_gen [where k = 146]

lemma trunc_neg: "0 \<le> x \<Longrightarrow> trunc_toward_zero (- x) = - \<lfloor>x\<rfloor>"
  by (auto simp: trunc_toward_zero_def ceiling_def)

lemma trunc_pos: "0 \<le> x \<Longrightarrow> trunc_toward_zero x = \<lfloor>x\<rfloor>"
  by (simp add: trunc_toward_zero_def)

lemma trunc_float_x16:
  "trunc_toward_zero (float_value f * 16) =
     (let e = float_exponent f; m = float_fraction f;
          mant = (if e = 0 then m else 2 ^ 23 + m);
          ex = (if e = 0 then 1 else e);
          mag = (if 146 \<le> ex then mant * 2 ^ (ex - 146) else mant div 2 ^ (146 - ex))
      in if bit f 31 then - int mag else int mag)"
proof -
  let ?mant = "if float_exponent f = 0 then float_fraction f else 2 ^ 23 + float_fraction f"
  let ?ex = "if float_exponent f = 0 then 1 else float_exponent f"
  have m: "float_magnitude f * 16 = real (?mant * 2 ^ ?ex) / real (2 ^ 146)"
    by (rule float_magnitude_x16)
  have nn: "0 \<le> float_magnitude f * 16" unfolding m by simp
  have fl: "\<lfloor>float_magnitude f * 16\<rfloor> = int ((?mant * 2 ^ ?ex) div 2 ^ 146)"
    unfolding m by (rule floor_nat_div)
  have "trunc_toward_zero (float_value f * 16)
          = (if bit f 31 then - \<lfloor>float_magnitude f * 16\<rfloor> else \<lfloor>float_magnitude f * 16\<rfloor>)"
    using trunc_neg [OF nn] trunc_pos [OF nn] by (simp add: float_value_def)
  then show ?thesis unfolding fl shift_div by (simp add: Let_def)
qed

lemma float_x16_to_int16_value:
  assumes "float_finite f"
    and "- (2 ^ 31) \<le> trunc_toward_zero (float_value f * 16)"
    and "trunc_toward_zero (float_value f * 16) < 2 ^ 31"
  shows "float_x16_to_int16 f = word_of_int (trunc_toward_zero (float_value f * 16))"
  using assms unfolding trunc_float_x16
  by (simp add: float_x16_to_int16_def float_finite_def float_exponent_def float_fraction_def Let_def)

lemma float_x16_to_int16_sint:
  assumes "float_finite f"
    and "- 32768 \<le> trunc_toward_zero (float_value f * 16)"
    and "trunc_toward_zero (float_value f * 16) \<le> 32767"
  shows "sint (float_x16_to_int16 f) = trunc_toward_zero (float_value f * 16)"
proof -
  from assms have "sint (float_x16_to_int16 f)
      = sint (word_of_int (trunc_toward_zero (float_value f * 16)) :: 16 word)"
    by (subst float_x16_to_int16_value) simp_all
  also have "sint (word_of_int (trunc_toward_zero (float_value f * 16)) :: 16 word)
               = signed_take_bit 15 (trunc_toward_zero (float_value f * 16))"
    by (simp add: sint_sbintrunc')
  also have "\<dots> = trunc_toward_zero (float_value f * 16)"
    by (rule signed_take_bit_int_eq_self) (use assms(2,3) in simp_all)
  finally show ?thesis .
qed


lemma take_bit_31_split:
  "f AND 0x7FFFFFFF = 0 \<longleftrightarrow> drop_bit 23 f AND 0xFF = 0 \<and> f AND 0x7FFFFF = 0" for f :: "32 word"
proof -
  have a: "(0x7FFFFFFF :: 32 word) = mask 31" "(0x7FFFFF :: 32 word) = mask 23" "(0xFF :: 32 word) = mask 8"
    by (simp_all add: mask_eq_exp_minus_1)
  show ?thesis unfolding a
  proof (intro iffI conjI)
    assume z: "f AND mask 31 = 0"
    have b: "\<not> bit f n" if "n < 31" for n
      using z that by (metis bit_0_eq bit_and_iff bit_mask_iff bot_apply bot_bool_def impossible_bit)
    show "drop_bit 23 f AND mask 8 = 0"
      by (rule bit_word_eqI) (use b in \<open>auto simp: bit_simps\<close>)
    show "f AND mask 23 = 0"
      by (rule bit_word_eqI) (use b in \<open>auto simp: bit_simps\<close>)
  next
    assume z: "drop_bit 23 f AND mask 8 = 0 \<and> f AND mask 23 = 0"
    have c: "\<not> bit f n" if "n < 23" for n
      using z that by (metis bit_0_eq bit_and_iff bit_mask_iff bot_apply bot_bool_def impossible_bit)
    have d: "\<not> bit f (23 + n)" if "n < 8" for n
    proof -
      from z have "\<not> bit (drop_bit 23 f AND mask 8) n" by simp
      with that show ?thesis by (simp add: bit_simps)
    qed
    show "f AND mask 31 = 0"
    proof (rule bit_word_eqI)
      fix n assume "n < LENGTH(32)"
      show "bit (f AND mask 31) n = bit (0 :: 32 word) n"
      proof (cases "n < 23")
        case True then show ?thesis using c by (simp add: bit_simps)
      next
        case False
        show ?thesis
        proof (cases "n < 31")
          case True
          with False have "n - 23 < 8" "23 + (n - 23) = n" by simp_all
          with d [of "n - 23"] have "\<not> bit f n" by simp
          then show ?thesis by (simp add: bit_simps)
        next
          case False then show ?thesis by (simp add: bit_simps)
        qed
      qed
    qed
  qed
qed


lemma float_is_zero_value: "float_is_zero f \<longleftrightarrow> float_finite f \<and> float_value f = 0"
proof -
  have "float_is_zero f \<longleftrightarrow> float_exponent f = 0 \<and> float_fraction f = 0"
    by (simp add: float_is_zero_def take_bit_31_split float_exponent_def float_fraction_def unat_eq_0)
  moreover have "float_finite f \<and> float_value f = 0 \<longleftrightarrow> float_exponent f = 0 \<and> float_fraction f = 0"
    by (auto simp: float_finite_def float_value_def float_magnitude_def add_nonneg_eq_0_iff)
  ultimately show ?thesis by simp
qed

lemma float_fields_num:
  "float_exponent 0xBF840000 = 127" "float_fraction 0xBF840000 = 262144" "bit (0xBF840000 :: 32 word) 31"
  by (simp_all add: float_exponent_def float_fraction_def)

lemma float_value_num: "float_value 0xBF840000 = - 33 / 32"
  by (simp add: float_value_def float_magnitude_def float_fields_num)

lemma float_x16_num:
  "float_finite 0xBF840000" "trunc_toward_zero (float_value 0xBF840000 * 16) = - 16"
  by (simp_all add: float_finite_def float_fields_num float_value_num trunc_toward_zero_def)

lemma float_x16_to_int16_num: "float_x16_to_int16 0xBF840000 = 0xFFF0"
  by (simp add: float_x16_to_int16_def Let_def)

lemma le16_minus_16: "le16 0xFFF0 = [0xF0, 0xFF]"
  by (simp add: le16_def)



lemma float_is_zero_num: "float_is_zero 0" "\<not> float_is_zero 0x3F800000"
  by (simp_all add: float_is_zero_def)

lemma le16_16: "le16 16 = [0x10, 0x00]"
  by (simp add: le16_def)

lemma le32_one: "le32 0x3F800000 = [0x00, 0x00, 0x80, 0x3F]"
  by (simp add: le32_def)


subsection \<open>Label references\<close>

lemma put_program_update: "put bs (cg\<lparr>program := p\<rparr>) = (put bs cg)\<lparr>program := p\<rparr>"
  by (simp add: put_def)

lemma wf_sink_program_update [simp]: "wf_sink (cg\<lparr>program := p\<rparr>) = wf_sink cg"
  by (simp add: wf_sink_def)

lemma emplace_local_offset_put:
  fixes cg :: "'a CodeGenerator_scheme"
  assumes "wf_sink cg" and "offset cg + 4 \<le> max_offset cg"
  shows "emplace_local_offset off cg =
           Inr ((put (le32 (- off)) cg)
                  \<lparr>program := (if off = 0 then program_error ''XXX reference to zero offset'' (program cg)
                               else program cg)\<rparr>)"
proof (cases "off = 0")
  case True
  let ?cg = "cg\<lparr>program := program_error ''XXX reference to zero offset'' (program cg)\<rparr>"
  from assms have "emplace_u32 (- off) ?cg = Inr (put (le32 (- off)) ?cg)"
    by (intro writesD [OF writes_emplace_u32]) simp_all
  with True show ?thesis
    by (simp add: emplace_local_offset_def emplace_i32_def put_program_update)
next
  case False
  from assms have "emplace_u32 (- off) cg = Inr (put (le32 (- off)) cg)"
    by (intro writesD [OF writes_emplace_u32]) simp_all
  with False show ?thesis
    by (simp add: emplace_local_offset_def emplace_i32_def)
qed

lemma label_negated:
  fixes cg :: "'a CodeGenerator_scheme"
  assumes wf: "wf_sink cg" and fits: "offset cg + 5 \<le> max_offset cg"
  shows "bind_r (emplace_u8 1 cg) (emplace_local_offset off) =
           Inr ((put (0x01 # le32 (- off)) cg)
                  \<lparr>program := (if off = 0 then program_error ''XXX reference to zero offset'' (program cg)
                               else program cg)\<rparr>)"
proof -
  from wf fits have 1: "emplace_u8 1 cg = Inr (put [1] cg)"
    by (intro writesD [OF writes_emplace_u8]) simp_all
  from wf fits have wf1: "wf_sink (put [1] cg)" by (simp add: wf_put)
  from fits have "offset (put [1] cg) + 4 \<le> max_offset (put [1] cg)" by simp
  from emplace_local_offset_put [OF wf1 this, of off]
  have 2: "emplace_local_offset off (put [1] cg) =
           Inr ((put (le32 (- off)) (put [1] cg))
                  \<lparr>program := (if off = 0 then program_error ''XXX reference to zero offset'' (program cg)
                               else program cg)\<rparr>)"
    by simp
  from wf fits have "put (le32 (- off)) (put [1] cg) = put ([1] @ le32 (- off)) cg"
    by (intro put_put) (simp add: wf_sink_def)
  with 1 2 show ?thesis by (simp add: bind_r_def)
qed

lemma program_update_id: "cg\<lparr>program := program cg\<rparr> = cg"
  by simp

lemma fresh_codegen_5:
  "fresh_codegen opts 5 =
     \<lparr>program = \<lparr>opt = opts, reported = []\<rparr>, bytecode = [0xAA, 0xAA, 0xAA, 0xAA, 0xAA],
      offset = 0, max_offset = 5, script = 0, compiled = []\<rparr>"
  by (simp add: fresh_codegen_def setup_buffer_def eval_nat_numeral)


subsection \<open>The size of what each emitter writes\<close>

lemma emitsD1:
  "emits n f \<Longrightarrow> f cg = Inr cg' \<Longrightarrow> offset cg' = offset cg + n \<and> same_frame cg cg'"
  by (simp add: emits_def same_frame_def)

lemma emitsD2: "emits n f \<Longrightarrow> offset cg + n \<le> max_offset cg \<Longrightarrow> \<exists>cg'. f cg = Inr cg'"
  by (simp add: emits_def)

lemma emitsI:
  assumes "\<And>cg cg'. f cg = Inr cg' \<Longrightarrow> offset cg' = offset cg + n \<and> same_frame cg cg'"
    and "\<And>cg. offset cg + n \<le> max_offset cg \<Longrightarrow> \<exists>cg'. f cg = Inr cg'"
  shows "emits n f"
  using assms unfolding emits_def same_frame_def by blast

lemma emits_cong: "emits n g \<Longrightarrow> f = g \<Longrightarrow> emits n f"
  by simp

lemma emits_seq2: "emits n f \<Longrightarrow> emits m g \<Longrightarrow> emits (n + m) (seq [f, g])"
  using emits_seq_Cons [OF _ emits_seq_Cons [OF _ emits_seq_Nil], of n f m g] by simp

lemma emits_EOAL: "emits 1 generate_code_EOAL"
  unfolding generate_code_EOAL_def by (rule emits_emplace_u8)

lemma emits_int8: "emits (1 + 1) (generate_code_int8 v)"
  unfolding generate_code_int8_def emplace_i8_def
  by (intro emits_seq2 emits_emplace_u8)

lemma emits_int16: "emits (1 + 2) (generate_code_int16 v)"
  unfolding generate_code_int16_def emplace_i16_def
  by (intro emits_seq2 emits_emplace_u8 emits_emplace_u16)

lemma emits_int32: "emits (1 + 4) (generate_code_int32 v)"
  unfolding generate_code_int32_def emplace_i32_def
  by (intro emits_seq2 emits_emplace_u8 emits_emplace_u32)

lemma emits_float_half: "emits (1 + 2) (seq [emplace_u8 6, emplace_i16 w])"
  unfolding emplace_i16_def by (intro emits_seq2 emits_emplace_u8 emits_emplace_u16)

lemma emits_float_raw: "emits (1 + 4) (seq [emplace_u8 6, emplace_u32 w])"
  by (intro emits_seq2 emits_emplace_u8 emits_emplace_u32)

lemma float_size:
  fixes cg :: "'a CodeGenerator_scheme"
  shows "generate_code_float v cg = Inr cg' \<Longrightarrow>
         offset cg' = offset cg + compiled_size_float v cg \<and> same_frame cg cg'"
  using emitsD1 [OF emits_int8, of 0 cg cg'] emitsD1 [OF emits_float_half, of "float_x16_to_int16 v" cg cg']
    emitsD1 [OF emits_float_raw, of v cg cg']
  by (auto simp: generate_code_float_def compiled_size_float_def split: if_splits)

lemma float_succeeds:
  fixes cg :: "'a CodeGenerator_scheme"
  shows "offset cg + compiled_size_float v cg \<le> max_offset cg \<Longrightarrow> \<exists>cg'. generate_code_float v cg = Inr cg'"
  using emitsD2 [OF emits_int8, of cg 0] emitsD2 [OF emits_float_half, of cg "float_x16_to_int16 v"]
    emitsD2 [OF emits_float_raw, of cg v]
  by (auto simp: generate_code_float_def compiled_size_float_def split: if_splits)


lemma emits_seq3: "emits n f \<Longrightarrow> emits m g \<Longrightarrow> emits k h \<Longrightarrow> emits (n + (m + k)) (seq [f, g, h])"
  using emits_seq_Cons [OF _ emits_seq2, of n f m g k h] by simp

lemma seq_single: "seq [f] = f"
  by (simp add: fun_eq_iff bind_r_def split: sum.splits)

lemma string_size:
  fixes cg :: "'a CodeGenerator_scheme"
  shows "generate_code_string s cg = Inr cg' \<Longrightarrow>
         offset cg' = offset cg + compiled_size_string s cg \<and> same_frame cg cg'"
proof (cases "str_type s")
  case TextLabel8
  assume r: "generate_code_string s cg = Inr cg'"
  show ?thesis
  proof (cases "has_text_label_prefix (opt (program cg))")
    case True
    with r TextLabel8 have "seq [emplace_u8 9, emplace_chars 8 (storage s)] cg = Inr cg'"
      by (simp add: generate_code_string_def expects_def split: if_splits)
    from emitsD1 [OF emits_seq2 [OF emits_emplace_u8 emits_emplace_chars] this]
    show ?thesis using True TextLabel8 by (simp add: compiled_size_string_def)
  next
    case False
    with r TextLabel8 have "emplace_chars 8 (storage s) cg = Inr cg'"
      by (simp add: generate_code_string_def expects_def seq_single del: seq.simps split: if_splits)
    from emitsD1 [OF emits_emplace_chars this]
    show ?thesis using False TextLabel8 by (simp add: compiled_size_string_def)
  qed
next
  case TextLabel16
  assume r: "generate_code_string s cg = Inr cg'"
  with TextLabel16 have "seq [emplace_u8 0xF, emplace_chars 16 (storage s)] cg = Inr cg'"
    by (simp add: generate_code_string_def expects_def split: if_splits)
  from emitsD1 [OF emits_seq2 [OF emits_emplace_u8 emits_emplace_chars] this]
  show ?thesis using TextLabel16 by (simp add: compiled_size_string_def)
next
  case StringVar
  assume r: "generate_code_string s cg = Inr cg'"
  with StringVar have "seq [emplace_u8 0xE, emplace_u8 (of_nat (length (storage s))),
             emplace_chars (length (storage s)) (storage s)] cg = Inr cg'"
    by (simp add: generate_code_string_def expects_def split: if_splits)
  from emitsD1 [OF emits_seq3 [OF emits_emplace_u8 emits_emplace_u8 emits_emplace_chars] this]
  show ?thesis using StringVar by (simp add: compiled_size_string_def)
next
  case String128
  assume r: "generate_code_string s cg = Inr cg'"
  with String128 have "emplace_chars 128 (storage s) cg = Inr cg'"
    by (simp add: generate_code_string_def)
  from emitsD1 [OF emits_emplace_chars this]
  show ?thesis using String128 by (simp add: compiled_size_string_def)
qed

lemma string_succeeds:
  fixes cg :: "'a CodeGenerator_scheme"
  assumes ok: "string_fits s" and fits: "offset cg + compiled_size_string s cg \<le> max_offset cg"
  shows "\<exists>cg'. generate_code_string s cg = Inr cg'"
proof (cases "str_type s")
  case TextLabel8
  show ?thesis
  proof (cases "has_text_label_prefix (opt (program cg))")
    case True
    with fits TextLabel8 have "offset cg + (1 + 8) \<le> max_offset cg"
      by (simp add: compiled_size_string_def)
    from emitsD2 [OF emits_seq2 [OF emits_emplace_u8 emits_emplace_chars] this]
    show ?thesis using True TextLabel8 ok
      by (simp add: generate_code_string_def expects_def string_fits_def)
  next
    case False
    with fits TextLabel8 have "offset cg + 8 \<le> max_offset cg"
      by (simp add: compiled_size_string_def)
    from emitsD2 [OF emits_emplace_chars this]
    show ?thesis using False TextLabel8 ok
      by (simp add: generate_code_string_def expects_def string_fits_def seq_single del: seq.simps)
  qed
next
  case TextLabel16
  with fits have "offset cg + (1 + 16) \<le> max_offset cg"
    by (simp add: compiled_size_string_def)
  from emitsD2 [OF emits_seq2 [OF emits_emplace_u8 emits_emplace_chars] this]
  show ?thesis using TextLabel16 ok
    by (simp add: generate_code_string_def expects_def string_fits_def)
next
  case StringVar
  with fits have "offset cg + (1 + (1 + length (storage s))) \<le> max_offset cg"
    by (simp add: compiled_size_string_def)
  from emitsD2 [OF emits_seq3 [OF emits_emplace_u8 emits_emplace_u8 emits_emplace_chars] this]
  show ?thesis using StringVar ok
    by (simp add: generate_code_string_def expects_def string_fits_def)
next
  case String128
  with fits have "offset cg + 128 \<le> max_offset cg"
    by (simp add: compiled_size_string_def)
  from emitsD2 [OF emits_emplace_chars this]
  show ?thesis using String128 by (simp add: generate_code_string_def)
qed



lemma emits_var_plain: "emits (1 + 2) (seq [emplace_u8 t, emplace_u16 w])"
  by (intro emits_seq2 emits_emplace_u8 emits_emplace_u16)

lemma emits_var_indexed:
  "emits (1 + (2 + (2 + (1 + 1))))
     (seq [emplace_u8 t, emplace_u16 a, emplace_u16 b, emplace_u8 c, emplace_u8 d])"
  using emits_seq_Cons [OF emits_emplace_u8 emits_seq_Cons [OF emits_emplace_u16
        emits_seq3 [OF emits_emplace_u16 emits_emplace_u8 emits_emplace_u8]], of t a b c d]
  by simp

lemma seq_var_indexed_Some:
  "seq [f1, f2, f3, (\<lambda>cg. case Some c of None \<Rightarrow> Inl (BadOptionalAccess, cg) | Some c \<Rightarrow> emplace_u8 (ucast c) cg), f5]
     = seq [f1, f2, f3, emplace_u8 (ucast c), f5]"
  by (simp add: fun_eq_iff)

lemma var_size:
  fixes cg :: "'a CodeGenerator_scheme"
  assumes r: "generate_code_var v cg = Inr cg'"
  shows "offset cg' = offset cg + compiled_size_var v cg \<and> same_frame cg cg'"
proof (cases "index v")
  case None
  with r emitsD1 [OF emits_var_plain] show ?thesis
    by (simp add: generate_code_var_def compiled_size_var_def)
next
  case (Some i)
  show ?thesis
  proof (cases i)
    case (IndexInt k)
    with Some r emitsD1 [OF emits_var_plain] show ?thesis
      by (simp add: generate_code_var_def compiled_size_var_def)
  next
    case (IndexVar iv)
    show ?thesis
    proof (cases "count (var v)")
      case None
      with Some IndexVar r have
        "seq [emplace_u8 (var_tag True (global (var v)) (var_type (var v))),
               emplace_u16 (ucast (if global (var v) then var_offset (var v) else var_index (var v))),
               emplace_u16 (ucast (if global iv then var_offset iv else var_index iv)),
               (\<lambda>cg. Inl (BadOptionalAccess, cg)),
               emplace_u8 ((VarType_value (var_type (var v)) AND 0x7F)
                           OR push_bit 7 (if global iv then 1 else 0))] cg = Inr cg'"
        by (simp add: generate_code_var_def del: seq.simps)
      then have False by (simp add: bind_r_def split: sum.splits)
      then show ?thesis ..
    next
      case (Some c)
      with \<open>index v = Some i\<close> IndexVar r have
        "seq [emplace_u8 (var_tag True (global (var v)) (var_type (var v))),
               emplace_u16 (ucast (if global (var v) then var_offset (var v) else var_index (var v))),
               emplace_u16 (ucast (if global iv then var_offset iv else var_index iv)),
               emplace_u8 (ucast c),
               emplace_u8 ((VarType_value (var_type (var v)) AND 0x7F)
                           OR push_bit 7 (if global iv then 1 else 0))] cg = Inr cg'"
        by (simp add: generate_code_var_def seq_var_indexed_Some del: seq.simps)
      from emitsD1 [OF emits_var_indexed this] \<open>index v = Some i\<close> IndexVar
      show ?thesis by (simp add: compiled_size_var_def)
    qed
  qed
qed

lemma var_succeeds:
  fixes cg :: "'a CodeGenerator_scheme"
  assumes ok: "var_counted v" and fits: "offset cg + compiled_size_var v cg \<le> max_offset cg"
  shows "\<exists>cg'. generate_code_var v cg = Inr cg'"
proof (cases "index v")
  case None
  with fits emitsD2 [OF emits_var_plain, of cg] show ?thesis
    by (simp add: generate_code_var_def compiled_size_var_def)
next
  case (Some i)
  show ?thesis
  proof (cases i)
    case (IndexInt k)
    with Some fits emitsD2 [OF emits_var_plain, of cg] show ?thesis
      by (simp add: generate_code_var_def compiled_size_var_def)
  next
    case (IndexVar iv)
    with Some ok obtain c where c: "count (var v) = Some c"
      by (auto simp: var_counted_def)
    from Some IndexVar fits have "offset cg + (1 + (2 + (2 + (1 + 1)))) \<le> max_offset cg"
      by (simp add: compiled_size_var_def)
    from emitsD2 [OF emits_var_indexed this] Some IndexVar c show ?thesis
      by (simp add: generate_code_var_def seq_var_indexed_Some del: seq.simps)
  qed
qed




lemma emits_emplace_local_offset: "emits 4 (emplace_local_offset off)"
proof (rule emitsI)
  fix cg cg' :: "'a CodeGenerator_scheme"
  assume "emplace_local_offset off cg = Inr cg'"
  then show "offset cg' = offset cg + 4 \<and> same_frame cg cg'"
    using emitsD1 [OF emits_emplace_u32, of "- off" cg cg']
      emitsD1 [OF emits_emplace_u32, of "- off"
        "cg\<lparr>program := program_error ''XXX reference to zero offset'' (program cg)\<rparr>" cg']
    by (auto simp: emplace_local_offset_def emplace_i32_def same_frame_def program_error_def
        split: if_splits)
next
  fix cg :: "'a CodeGenerator_scheme"
  assume "offset cg + 4 \<le> max_offset cg"
  then show "\<exists>cg'. emplace_local_offset off cg = Inr cg'"
    using emitsD2 [OF emits_emplace_u32, of cg "- off"]
      emitsD2 [OF emits_emplace_u32,
        of "cg\<lparr>program := program_error ''XXX reference to zero offset'' (program cg)\<rparr>" "- off"]
    by (auto simp: emplace_local_offset_def emplace_i32_def)
qed

lemma emits_emplace_i32: "emits 4 (emplace_i32 v)"
  unfolding emplace_i32_def by (rule emits_emplace_u32)

lemma same_frame_trans: "same_frame a b \<Longrightarrow> same_frame b c \<Longrightarrow> same_frame a c"
  by (simp add: same_frame_def)

lemma same_frame_refl [simp]: "same_frame a a"
  by (simp add: same_frame_def)

lemma same_frame_script:
  fixes a b :: "'a CodeGenerator_scheme"
  shows "same_frame a b \<Longrightarrow> script b = script a"
  by (cases a, cases b) (simp add: same_frame_def)

lemma label_size:
  fixes cg :: "'a CodeGenerator_scheme"
  assumes r: "generate_code_label h l cg = Inr cg'"
  shows "offset cg' = offset cg + (1 + 4) \<and> same_frame cg cg'"
proof -
  from r obtain c1 where c1: "emplace_u8 1 cg = Inr c1"
    by (auto simp: generate_code_label_def bind_r_def split: sum.splits)
  from emitsD1 [OF emits_emplace_u8 c1] have 1: "offset c1 = offset cg + 1" "same_frame cg c1"
    by simp_all
  from r c1 have "(\<exists>off. emplace_local_offset off c1 = Inr cg') \<or> (\<exists>off. emplace_i32 off c1 = Inr cg')"
    by (auto simp: generate_code_label_def bind_r_def split: if_splits option.splits)
  then have "offset cg' = offset c1 + 4 \<and> same_frame c1 cg'"
    using emitsD1 [OF emits_emplace_local_offset] emitsD1 [OF emits_emplace_i32] by blast
  with 1 show ?thesis using same_frame_trans by auto
qed

lemma label_succeeds:
  fixes cg :: "'a CodeGenerator_scheme"
  assumes ok: "label_resolved h l cg" and fits: "offset cg + (1 + 4) \<le> max_offset cg"
  shows "\<exists>cg'. generate_code_label h l cg = Inr cg'"
proof -
  from fits obtain c1 where c1: "emplace_u8 1 cg = Inr c1"
    using emitsD2 [OF emits_emplace_u8, of cg 1] by auto
  from emitsD1 [OF emits_emplace_u8 c1] have 1: "offset c1 = offset cg + 1" "same_frame cg c1"
    by simp_all
  then have o: "opt (program c1) = opt (program cg)" "script c1 = script cg" "max_offset c1 = max_offset cg"
    using same_frame_script [of cg c1] by (simp_all add: same_frame_def)
  with 1 fits have f4: "offset c1 + 4 \<le> max_offset c1" by simp
  from emitsD2 [OF emits_emplace_local_offset f4] emitsD2 [OF emits_emplace_i32 f4]
  have "\<And>off. \<exists>cg'. emplace_local_offset off c1 = Inr cg'" "\<And>off. \<exists>cg'. emplace_i32 off c1 = Inr cg'"
    by blast+
  with ok c1 o show ?thesis
    by (auto simp: generate_code_label_def bind_r_def label_resolved_def split: if_splits)
qed



lemma arg_size:
  fixes cg :: "'a CodeGenerator_scheme"
  assumes r: "generate_code_arg h a cg = Inr cg'"
  shows "offset cg' = offset cg + compiled_size_arg a cg \<and> same_frame cg cg'"
proof (cases a)
  case EOAL
  with r emitsD1 [OF emits_EOAL] show ?thesis by simp
next
  case (Int8 v)
  with r emitsD1 [OF emits_int8] show ?thesis by simp
next
  case (Int16 v)
  with r emitsD1 [OF emits_int16] show ?thesis by simp
next
  case (Int32 v)
  with r emitsD1 [OF emits_int32] show ?thesis by simp
next
  case (Float v)
  with r float_size show ?thesis by simp
next
  case (LabelRef l)
  with r label_size show ?thesis by simp
next
  case (VarRef v)
  with r var_size show ?thesis by simp
next
  case (String s)
  with r string_size show ?thesis by simp
qed

lemma arg_succeeds:
  fixes cg :: "'a CodeGenerator_scheme"
  assumes ok: "well_formed_arg h a cg" and fits: "offset cg + compiled_size_arg a cg \<le> max_offset cg"
  shows "\<exists>cg'. generate_code_arg h a cg = Inr cg'"
proof (cases a)
  case EOAL
  with fits emitsD2 [OF emits_EOAL, of cg] show ?thesis by simp
next
  case (Int8 v)
  with fits emitsD2 [OF emits_int8, of cg] show ?thesis by simp
next
  case (Int16 v)
  with fits emitsD2 [OF emits_int16, of cg] show ?thesis by simp
next
  case (Int32 v)
  with fits emitsD2 [OF emits_int32, of cg] show ?thesis by simp
next
  case (Float v)
  with fits float_succeeds show ?thesis by simp
next
  case (LabelRef l)
  with ok fits label_succeeds show ?thesis by simp
next
  case (VarRef v)
  with ok fits var_succeeds show ?thesis by simp
next
  case (String s)
  with ok fits string_succeeds show ?thesis by simp
qed

lemma compiled_size_arg_frame:
  fixes a b :: "'a CodeGenerator_scheme"
  shows "same_frame a b \<Longrightarrow> compiled_size_arg x b = compiled_size_arg x a"
  by (cases x)
     (simp_all add: same_frame_def compiled_size_float_def compiled_size_var_def
        compiled_size_string_def)

lemma well_formed_arg_frame:
  fixes a b :: "'a CodeGenerator_scheme"
  shows "same_frame a b \<Longrightarrow> well_formed_arg h x b = well_formed_arg h x a"
  using same_frame_script [of a b]
  by (cases x) (simp_all add: same_frame_def label_resolved_def)


lemma fold_size: "fold (\<lambda>a size. size + f a) as (n::nat) = n + sum_list (map f as)"
  by (induction as arbitrary: n) simp_all

lemma compiled_size_command_sum: "compiled_size_command cmd cg = 2 + args_size (args cmd) cg"
  by (simp add: compiled_size_command_def args_size_def fold_size)

lemma args_emitted_size:
  fixes cg :: "'a CodeGenerator_scheme"
  shows "seq (map (generate_code_arg h) as) cg = Inr cg' \<Longrightarrow>
         offset cg' = offset cg + args_size as cg \<and> same_frame cg cg'"
proof (induction as arbitrary: cg)
  case Nil
  then show ?case by (simp add: args_size_def)
next
  case (Cons a as)
  from Cons.prems obtain c1 where c1: "generate_code_arg h a cg = Inr c1"
    and rest: "seq (map (generate_code_arg h) as) c1 = Inr cg'"
    by (auto simp: bind_r_def split: sum.splits)
  from arg_size [OF c1] have 1: "offset c1 = offset cg + compiled_size_arg a cg" "same_frame cg c1"
    by simp_all
  from Cons.IH [OF rest] have 2: "offset cg' = offset c1 + args_size as c1" "same_frame c1 cg'"
    by simp_all
  from 1(2) have "args_size as c1 = args_size as cg"
    by (simp add: args_size_def compiled_size_arg_frame [of cg c1])
  with 1 2 show ?case
    using same_frame_trans [of cg c1 cg'] by (simp add: args_size_def)
qed

lemma args_succeed:
  fixes cg :: "'a CodeGenerator_scheme"
  shows "list_all (\<lambda>a. well_formed_arg h a cg) as \<Longrightarrow> offset cg + args_size as cg \<le> max_offset cg \<Longrightarrow>
         \<exists>cg'. seq (map (generate_code_arg h) as) cg = Inr cg'"
proof (induction as arbitrary: cg)
  case Nil
  then show ?case by simp
next
  case (Cons a as)
  from Cons.prems have "well_formed_arg h a cg" "offset cg + compiled_size_arg a cg \<le> max_offset cg"
    by (simp_all add: args_size_def)
  from arg_succeeds [OF this] obtain c1 where c1: "generate_code_arg h a cg = Inr c1" by blast
  from arg_size [OF c1] have 1: "offset c1 = offset cg + compiled_size_arg a cg" "same_frame cg c1"
    by simp_all
  from 1(2) have eq: "args_size as c1 = args_size as cg" "max_offset c1 = max_offset cg"
    "list_all (\<lambda>a. well_formed_arg h a c1) as = list_all (\<lambda>a. well_formed_arg h a cg) as"
    by (simp_all add: args_size_def compiled_size_arg_frame [of cg c1]
        well_formed_arg_frame [of cg c1] same_frame_def [of cg c1])
  with Cons.prems 1 have "list_all (\<lambda>a. well_formed_arg h a c1) as"
    "offset c1 + args_size as c1 \<le> max_offset c1"
    by (simp_all add: args_size_def)
  from Cons.IH [OF this] obtain c2 where "seq (map (generate_code_arg h) as) c1 = Inr c2" by blast
  with c1 show ?case by (simp add: bind_r_def)
qed

lemma command_size:
  fixes cg :: "'a CodeGenerator_scheme"
  assumes r: "generate_code_command h cmd cg = Inr cg'"
  shows "offset cg' = offset cg + compiled_size_command cmd cg \<and> same_frame cg cg'"
proof -
  from r obtain c1 where c1: "emplace_u16 (cmd_id cmd) cg = Inr c1"
    and rest: "seq (map (generate_code_arg h) (args cmd)) c1 = Inr cg'"
    by (auto simp: generate_code_command_def bind_r_def split: sum.splits)
  from emitsD1 [OF emits_emplace_u16 c1] have 1: "offset c1 = offset cg + 2" "same_frame cg c1"
    by simp_all
  from args_emitted_size [OF rest] have 2: "offset cg' = offset c1 + args_size (args cmd) c1"
    "same_frame c1 cg'" by simp_all
  from 1(2) have "args_size (args cmd) c1 = args_size (args cmd) cg"
    by (simp add: args_size_def compiled_size_arg_frame [of cg c1])
  with 1 2 show ?thesis
    using same_frame_trans [of cg c1 cg'] by (simp add: compiled_size_command_sum)
qed

lemma command_succeeds:
  fixes cg :: "'a CodeGenerator_scheme"
  assumes ok: "list_all (\<lambda>a. well_formed_arg h a cg) (args cmd)"
    and fits: "offset cg + compiled_size_command cmd cg \<le> max_offset cg"
  shows "\<exists>cg'. generate_code_command h cmd cg = Inr cg'"
proof -
  from fits have "offset cg + 2 \<le> max_offset cg" by (simp add: compiled_size_command_sum)
  from emitsD2 [OF emits_emplace_u16 this] obtain c1 where c1: "emplace_u16 (cmd_id cmd) cg = Inr c1"
    by blast
  from emitsD1 [OF emits_emplace_u16 c1] have 1: "offset c1 = offset cg + 2" "same_frame cg c1"
    by simp_all
  from 1(2) have eq: "args_size (args cmd) c1 = args_size (args cmd) cg" "max_offset c1 = max_offset cg"
    "list_all (\<lambda>a. well_formed_arg h a c1) (args cmd) = list_all (\<lambda>a. well_formed_arg h a cg) (args cmd)"
    by (simp_all add: args_size_def compiled_size_arg_frame [of cg c1]
        well_formed_arg_frame [of cg c1] same_frame_def [of cg c1])
  with ok fits 1 have "list_all (\<lambda>a. well_formed_arg h a c1) (args cmd)"
    "offset c1 + args_size (args cmd) c1 \<le> max_offset c1"
    by (simp_all add: compiled_size_command_sum)
  from args_succeed [OF this] obtain c2 where "seq (map (generate_code_arg h) (args cmd)) c1 = Inr c2"
    by blast
  with c1 show ?thesis by (simp add: generate_code_command_def bind_r_def)
qed

lemma node_size:
  fixes cg :: "'a CodeGenerator_scheme"
  assumes r: "generate_code h n cg = Inr cg'"
  shows "offset cg' = offset cg + compiled_size n cg \<and> same_frame cg cg'"
proof (cases n)
  case (Arg a)
  with r arg_size show ?thesis by simp
next
  case (Command cmd)
  with r command_size show ?thesis by simp
next
  case (LabelDef l)
  with r show ?thesis by auto
next
  case (Hex data)
  with r emitsD1 [OF emits_emplace_bytes] show ?thesis by simp
qed

lemma node_succeeds:
  fixes cg :: "'a CodeGenerator_scheme"
  assumes ok: "well_formed h n cg" and fits: "offset cg + compiled_size n cg \<le> max_offset cg"
  shows "\<exists>cg'. generate_code h n cg = Inr cg'"
proof (cases n)
  case (Arg a)
  with ok fits arg_succeeds show ?thesis by simp
next
  case (Command cmd)
  with ok fits command_succeeds show ?thesis by simp
next
  case (LabelDef l)
  then show ?thesis by simp
next
  case (Hex data)
  with fits emitsD2 [OF emits_emplace_bytes, of cg] show ?thesis by simp
qed


subsection \<open>The loop of \<open>compute_labels\<close>\<close>

lemma loop_step_LabelDef:
  "compute_labels_loop cg (LabelDef l # ops) st =
     compute_labels_loop cg ops (set_local_offset l (snd st) (fst st), snd st)"
  by (cases st) simp

lemma loop_step_other:
  "\<not> is_LabelDef op \<Longrightarrow>
   compute_labels_loop cg (op # ops) st =
     compute_labels_loop cg ops (fst st, snd st + of_nat (compiled_size op cg))"
  by (cases st; cases op) simp_all

lemma loop_append:
  "compute_labels_loop cg (xs @ ys) st = compute_labels_loop cg ys (compute_labels_loop cg xs st)"
proof (induction xs arbitrary: st)
  case Nil
  show ?case by (cases st) simp
next
  case (Cons x xs)
  show ?case
  proof (cases "is_LabelDef x")
    case True
    then obtain l where "x = LabelDef l" by (cases x) simp_all
    with Cons.IH show ?thesis by (simp add: loop_step_LabelDef del: compute_labels_loop.simps)
  next
    case False
    with Cons.IH show ?thesis by (simp add: loop_step_other del: compute_labels_loop.simps)
  qed
qed

lemma nonlabel_size_Nil [simp]: "nonlabel_size cg [] = 0"
  by (simp add: nonlabel_size_def)

lemma nonlabel_size_LabelDef [simp]: "nonlabel_size cg (LabelDef l # ops) = nonlabel_size cg ops"
  by (simp add: nonlabel_size_def)

lemma nonlabel_size_other:
  "\<not> is_LabelDef op \<Longrightarrow> nonlabel_size cg (op # ops) = compiled_size op cg + nonlabel_size cg ops"
  by (simp add: nonlabel_size_def)

lemma nonlabel_size_append:
  "nonlabel_size cg (xs @ ys) = nonlabel_size cg xs + nonlabel_size cg ys"
  by (simp add: nonlabel_size_def)

lemma loop_offset:
  "snd (compute_labels_loop cg ops st) = snd st + of_nat (nonlabel_size cg ops)"
proof (induction ops arbitrary: st)
  case Nil
  show ?case by (cases st) simp
next
  case (Cons x xs)
  show ?case
  proof (cases "is_LabelDef x")
    case True
    then obtain l where "x = LabelDef l" by (cases x) simp_all
    with Cons.IH show ?thesis by (simp add: loop_step_LabelDef del: compute_labels_loop.simps)
  next
    case False
    with Cons.IH show ?thesis
      by (simp add: loop_step_other nonlabel_size_other del: compute_labels_loop.simps)
  qed
qed

lemma loop_keeps_label:
  "LabelDef l \<notin> set ops \<Longrightarrow>
   labels_at (fst (compute_labels_loop cg ops st)) l = labels_at (fst st) l"
proof (induction ops arbitrary: st)
  case Nil
  show ?case by (cases st) simp
next
  case (Cons x xs)
  show ?case
  proof (cases "is_LabelDef x")
    case True
    then obtain k where k: "x = LabelDef k" by (cases x) simp_all
    with Cons.prems have "k \<noteq> l" "LabelDef l \<notin> set xs" by auto
    with Cons.IH k show ?thesis
      by (simp add: loop_step_LabelDef set_local_offset_def del: compute_labels_loop.simps)
  next
    case False
    with Cons.IH Cons.prems show ?thesis
      by (simp add: loop_step_other del: compute_labels_loop.simps)
  qed
qed

lemma local_offset_set [simp]:
  "local_offset (labels_at (set_local_offset l off h) l) = Some off"
  by (simp add: set_local_offset_def)

lemma take_Suc_LabelDef:
  "i < length ops \<Longrightarrow> ops ! i = LabelDef l \<Longrightarrow> take (Suc i) ops = take i ops @ [LabelDef l]"
  by (simp add: take_Suc_conv_app_nth)


lemma example_ir_sizes:
  "nonlabel_size cg example_ir = 6"
  "nonlabel_size cg (take 1 example_ir) = 2"
  "nonlabel_size cg (take 2 example_ir) = 2"
  "nonlabel_size cg (take 4 example_ir) = 6"
  by (simp_all add: example_ir_def nonlabel_size_def compiled_size_command_def)

lemma example_ir_labels:
  "1 < length example_ir \<and> example_ir ! 1 = LabelDef 1"
  "2 < length example_ir \<and> example_ir ! 2 = LabelDef 2"
  "4 < length example_ir \<and> example_ir ! 4 = LabelDef 3"
  "LabelDef 1 \<notin> set (drop (Suc 1) example_ir)"
  "LabelDef 2 \<notin> set (drop (Suc 2) example_ir)"
  "LabelDef 3 \<notin> set (drop (Suc 4) example_ir)"
  by (simp_all add: example_ir_def)


subsection \<open>Emitters keep what was written\<close>

lemma take_put: "offset cg \<le> length (bytecode cg) \<Longrightarrow>
  take (offset cg) (bytecode (put bs cg)) = take (offset cg) (bytecode cg)"
  by (simp add: put_def write_at_def)

lemma writes_extends:
  assumes w: "writes bs f"
  shows "extends (length bs) f"
  unfolding extends_def
proof (intro allI impI)
  fix cg cg'
  assume a: "wf_sink cg \<and> f cg = Inr cg'"
  have fits: "offset cg + length bs \<le> max_offset cg"
  proof (rule ccontr)
    assume "\<not> offset cg + length bs \<le> max_offset cg"
    with w a obtain e s where "f cg = Inl (e, s)" unfolding writes_def by fastforce
    with a show False by simp
  qed
  with w a have "cg' = put bs cg" unfolding writes_def by fastforce
  moreover from a fits have "wf_sink (put bs cg)" by (simp add: wf_put)
  moreover from a have "take (offset cg) (bytecode (put bs cg)) = take (offset cg) (bytecode cg)"
    by (simp add: take_put wf_sink_def)
  ultimately show "wf_sink cg' \<and> offset cg' = offset cg + length bs \<and> max_offset cg' = max_offset cg
        \<and> take (offset cg) (bytecode cg') = take (offset cg) (bytecode cg)"
    by simp
qed


lemma extends_fail: "extends n (\<lambda>cg. Inl (e, cg))"
  by (simp add: extends_def)

lemma extends_bind:
  fixes f g :: "'a CodeGeneratorBase_scheme \<Rightarrow> 'a CodeGeneratorBase_scheme result"
  assumes f: "extends n f" and g: "extends m g"
  shows "extends (n + m) (\<lambda>cg. bind_r (f cg) g)"
  unfolding extends_def
proof (intro allI impI)
  fix cg cg' :: "'a CodeGeneratorBase_scheme"
  assume a: "wf_sink cg \<and> bind_r (f cg) g = Inr cg'"
  then obtain c1 where c1: "f cg = Inr c1" "g c1 = Inr cg'"
    by (auto simp: bind_r_def split: sum.splits)
  from f a c1 have 1: "wf_sink c1" "offset c1 = offset cg + n" "max_offset c1 = max_offset cg"
    "take (offset cg) (bytecode c1) = take (offset cg) (bytecode cg)"
    unfolding extends_def by blast+
  from g 1(1) c1 have 2: "wf_sink cg'" "offset cg' = offset c1 + m" "max_offset cg' = max_offset c1"
    "take (offset c1) (bytecode cg') = take (offset c1) (bytecode c1)"
    unfolding extends_def by blast+
  have "take (offset cg) (bytecode cg') = take (offset cg) (take (offset c1) (bytecode cg'))"
    using 1(2) by (simp add: min_def)
  also have "\<dots> = take (offset cg) (take (offset c1) (bytecode c1))" using 2(4) by simp
  also have "\<dots> = take (offset cg) (bytecode c1)" using 1(2) by (simp add: min_def)
  finally have "take (offset cg) (bytecode cg') = take (offset cg) (bytecode cg)" using 1(4) by simp
  with 1 2 show "wf_sink cg' \<and> offset cg' = offset cg + (n + m) \<and> max_offset cg' = max_offset cg
        \<and> take (offset cg) (bytecode cg') = take (offset cg) (bytecode cg)"
    by simp
qed


lemma extends_seq_Nil: "extends 0 (seq [])"
  unfolding extends_def by auto

lemma extends_seq_Cons: "extends n f \<Longrightarrow> extends m (seq fs) \<Longrightarrow> extends (n + m) (seq (f # fs))"
proof -
  assume a: "extends n f" "extends m (seq fs)"
  have "seq (f # fs) = (\<lambda>cg. bind_r (f cg) (seq fs))" by (simp add: fun_eq_iff)
  with extends_bind [OF a] show ?thesis by (simp only:)
qed

lemma extends_seq_append:
  "extends n (seq fs) \<Longrightarrow> extends m (seq gs) \<Longrightarrow> extends (n + m) (seq (fs @ gs))"
  unfolding seq_append by (rule extends_bind)

lemma extends_seq_map:
  fixes f :: "'b \<Rightarrow> 'a CodeGeneratorBase_scheme \<Rightarrow> 'a CodeGeneratorBase_scheme result"
  shows "(\<And>x. x \<in> set xs \<Longrightarrow> extends n (f x)) \<Longrightarrow> extends (n * length xs) (seq (map f xs))"
proof (induction xs)
  case Nil
  show ?case using extends_seq_Nil by (simp del: seq.simps)
next
  case (Cons x xs)
  from Cons.prems have 1: "extends n (f x)" by simp
  from Cons have 2: "extends (n * length xs) (seq (map f xs))" by simp
  from extends_seq_Cons [OF 1 2] show ?case by (simp del: seq.simps)
qed


lemma extends_emplace_u8: "extends 1 (emplace_u8 v)"
  using writes_extends [OF writes_emplace_u8] by simp

lemma extends_emplace_i8: "extends 1 (emplace_i8 v)"
  unfolding emplace_i8_def by (rule extends_emplace_u8)

lemma extends_emplace_u16: "extends 2 (emplace_u16 v)"
  using writes_extends [OF writes_emplace_u16] by simp

lemma extends_emplace_u32: "extends 4 (emplace_u32 v)"
  using writes_extends [OF writes_emplace_u32] by simp

lemma extends_emplace_i32: "extends 4 (emplace_i32 v)"
  unfolding emplace_i32_def by (rule extends_emplace_u32)

lemma extends_emplace_chars: "extends n (emplace_chars n s)"
  using writes_extends [OF writes_emplace_chars] by simp

lemma extends_emplace_fill: "extends n (emplace_fill n b)"
  using writes_extends [OF writes_emplace_fill] by simp

lemma extends_mission_offset_entry:
  "extends 4 (mission_offset_entry sc :: 'a CodeGeneratorBase_scheme \<Rightarrow> 'a CodeGeneratorBase_scheme result)"
proof (cases "script_offset sc")
  case None
  show ?thesis unfolding extends_def mission_offset_entry_def None by simp
next
  case (Some off)
  have "extends 4 (emplace_i32 off :: 'a CodeGeneratorBase_scheme \<Rightarrow> 'a CodeGeneratorBase_scheme result)"
    by (rule extends_emplace_i32)
  then show ?thesis unfolding extends_def mission_offset_entry_def Some by simp
qed


lemma extends_streamed_entries:
  "extends (28 * length scs)
     (seq (streamed_entries vo scs) :: 'a CodeGeneratorBase_scheme \<Rightarrow> 'a CodeGeneratorBase_scheme result)"
proof (induction scs arbitrary: vo)
  case Nil
  show ?case using extends_seq_Nil by (simp del: seq.simps)
next
  case (Cons sc scs)
  show ?case
  proof (cases "script_size sc")
    case None
    have "\<And>cg :: 'a CodeGeneratorBase_scheme.
            seq (streamed_entries vo (sc # scs)) cg = Inl (BadOptionalAccess, cg)"
      by (simp add: None bind_r_def)
    then show ?thesis unfolding extends_def by (simp only: sum.distinct simp_thms)
  next
    case (Some sz)
    have e: "extends (20 + 4 + 4)
            (seq [emplace_chars 20 (map toupper (path_stem sc)), emplace_u32 vo, emplace_u32 sz]
              :: 'a CodeGeneratorBase_scheme \<Rightarrow> 'a CodeGeneratorBase_scheme result)"
      using extends_seq_Cons [OF extends_emplace_chars extends_seq_Cons [OF extends_emplace_u32
            extends_seq_Cons [OF extends_emplace_u32 extends_seq_Nil]],
            of 20 "map toupper (path_stem sc)" vo sz]
      by (simp del: seq.simps)
    have "streamed_entries vo (sc # scs)
            = [emplace_chars 20 (map toupper (path_stem sc)), emplace_u32 vo, emplace_u32 sz]
              @ (streamed_entries (vo + sz) scs
                  :: ('a CodeGeneratorBase_scheme \<Rightarrow> 'a CodeGeneratorBase_scheme result) list)"
      by (simp add: Some)
    with extends_seq_append [OF e Cons.IH [of "vo + sz"]] show ?thesis by (simp del: seq.simps)
  qed
qed


subsection \<open>The trampoline of a segment\<close>

lemma length_trampoline [simp]: "length (trampoline t) = 7"
  by (simp add: trampoline_def)

lemma writes_trampoline:
  "writes (trampoline t) (seq [emplace_u16 0x0002, emplace_u8 1, emplace_i32 t])"
proof -
  have "writes (le16 2 @ ([1] @ (le32 t @ []))) (seq [emplace_u16 0x0002, emplace_u8 1, emplace_i32 t])"
    unfolding emplace_i32_def
    by (intro writes_seq_Cons writes_emplace_u16 writes_emplace_u8 writes_emplace_u32 writes_seq_Nil)
  moreover have "le16 2 @ ([1] @ (le32 t @ [])) = trampoline t"
    by (simp add: trampoline_def le16_def)
  ultimately show ?thesis by simp
qed

lemma goto_rel_seq:
  "goto_rel k cg = seq [emplace_u16 0x0002, emplace_u8 1, emplace_i32 (of_nat (8 + k + offset cg))] cg"
  by (simp add: goto_rel_def current_offset_def Let_def del: seq.simps)

lemma writes_Inr_D:
  assumes w: "writes bs f" and wf: "wf_sink cg" and r: "f cg = Inr cg'"
  shows "cg' = put bs cg \<and> offset cg + length bs \<le> max_offset cg"
proof -
  have fits: "offset cg + length bs \<le> max_offset cg"
  proof (rule ccontr)
    assume "\<not> offset cg + length bs \<le> max_offset cg"
    with w wf obtain e s where "f cg = Inl (e, s)" unfolding writes_def by fastforce
    with r show False by simp
  qed
  with w wf r have "cg' = put bs cg" unfolding writes_def by fastforce
  with fits show ?thesis by simp
qed

lemma goto_rel_Inr_D:
  assumes wf: "wf_sink cg" and r: "goto_rel k cg = Inr c1"
  shows "c1 = put (trampoline (of_nat (8 + k + offset cg))) cg \<and> offset cg + 7 \<le> max_offset cg"
  using writes_Inr_D [OF writes_trampoline wf r [unfolded goto_rel_seq]] by simp

lemma bytes_between_take:
  "j \<le> n \<Longrightarrow> take n (bytecode a) = take n (bytecode b) \<Longrightarrow> bytes_between i j a = bytes_between i j b"
proof -
  assume j: "j \<le> n" and eq: "take n (bytecode a) = take n (bytecode b)"
  have g: "\<And>xs :: byte list. take (j - i) (drop i xs) = take (j - i) (drop i (take n xs))"
    using j by (simp add: drop_take min_def)
  have "bytes_between i j a = take (j - i) (drop i (take n (bytecode a)))"
    unfolding bytes_between_def by (rule g)
  also have "\<dots> = take (j - i) (drop i (take n (bytecode b)))" by (simp only: eq)
  also have "\<dots> = bytes_between i j b" unfolding bytes_between_def by (rule g [symmetric])
  finally show ?thesis .
qed

lemma trampolinedI:
  fixes body :: "('a CodeGeneratorBase_scheme \<Rightarrow> 'a CodeGeneratorBase_scheme result) list"
  assumes body: "extends (k + 1) (seq body)"
  shows "trampolined (seq (goto_rel k # body))"
  unfolding trampolined_def
proof (intro allI impI)
  fix cg cg' :: "'a CodeGeneratorBase_scheme"
  assume a: "wf_sink cg \<and> seq (goto_rel k # body) cg = Inr cg'"
  then obtain c1 where c1: "goto_rel k cg = Inr c1" and rest: "seq body c1 = Inr cg'"
    by (auto simp: bind_r_def split: sum.splits)
  let ?t = "trampoline (of_nat (8 + k + offset cg))"
  from goto_rel_Inr_D [OF _ c1] a have p: "c1 = put ?t cg" and fits: "offset cg + 7 \<le> max_offset cg"
    by simp_all
  from a fits have wf1: "wf_sink c1" unfolding p by (intro wf_put) simp_all
  have o1: "offset c1 = offset cg + 7" unfolding p by simp
  from a have k1: "take (offset cg) (bytecode c1) = take (offset cg) (bytecode cg)"
    unfolding p by (intro take_put) (simp add: wf_sink_def)
  from a fits have b1: "bytes_between (offset cg) (offset cg + 7) c1 = ?t"
    unfolding p by (intro bytes_between_put_n) simp_all
  from body wf1 rest have 2: "wf_sink cg'" "offset cg' = offset c1 + (k + 1)"
    "max_offset cg' = max_offset c1" "take (offset c1) (bytecode cg') = take (offset c1) (bytecode c1)"
    unfolding extends_def by blast+
  from 2(4) o1 have b2: "bytes_between (offset cg) (offset cg + 7) cg' = bytes_between (offset cg) (offset cg + 7) c1"
    by (intro bytes_between_take [of _ "offset c1"]) simp_all
  have "take (offset cg) (bytecode cg') = take (offset cg) (take (offset c1) (bytecode cg'))"
    using o1 by (simp add: min_def)
  also have "\<dots> = take (offset cg) (bytecode c1)" using 2(4) o1 by (simp add: min_def)
  finally have kept: "take (offset cg) (bytecode cg') = take (offset cg) (bytecode cg)" using k1 by simp
  have tgt: "8 + k + offset cg = offset cg'" using 2(2) o1 by simp
  from 2 o1 kept b1 b2 tgt p show "wf_sink cg' \<and> offset cg + 8 \<le> offset cg' \<and> max_offset cg' = max_offset cg
        \<and> take (offset cg) (bytecode cg') = take (offset cg) (bytecode cg)
        \<and> bytes_between (offset cg) (offset cg + 7) cg' = trampoline (of_nat (offset cg'))"
    by simp
qed


lemma extends_goto_rel: "extends 7 (goto_rel k)"
  unfolding extends_def
proof (intro allI impI)
  fix cg cg' :: "'a CodeGeneratorBase_scheme"
  assume a: "wf_sink cg \<and> goto_rel k cg = Inr cg'"
  let ?t = "trampoline (of_nat (8 + k + offset cg))"
  from goto_rel_Inr_D [of cg k cg'] a have p: "cg' = put ?t cg" and fits: "offset cg + 7 \<le> max_offset cg"
    by simp_all
  from a fits have "wf_sink (put ?t cg)" by (intro wf_put) simp_all
  moreover from a have "take (offset cg) (bytecode (put ?t cg)) = take (offset cg) (bytecode cg)"
    by (intro take_put) (simp add: wf_sink_def)
  ultimately show "wf_sink cg' \<and> offset cg' = offset cg + 7 \<and> max_offset cg' = max_offset cg
        \<and> take (offset cg) (bytecode cg') = take (offset cg) (bytecode cg)"
    unfolding p by simp
qed

lemma emits_goto_rel: "emits 7 (goto_rel k)"
proof (rule emitsI)
  have e: "\<And>t. emits 7 (seq [emplace_u16 0x0002, emplace_u8 1, emplace_i32 t]
                  :: 'a CodeGeneratorBase_scheme \<Rightarrow> 'a CodeGeneratorBase_scheme result)"
  proof -
    fix t
    have "emits (2 + (1 + 4)) (seq [emplace_u16 0x0002, emplace_u8 1, emplace_i32 t]
                  :: 'a CodeGeneratorBase_scheme \<Rightarrow> 'a CodeGeneratorBase_scheme result)"
      by (intro emits_seq3 emits_emplace_u16 emits_emplace_u8 emits_emplace_i32)
    then show "emits 7 (seq [emplace_u16 0x0002, emplace_u8 1, emplace_i32 t]
                  :: 'a CodeGeneratorBase_scheme \<Rightarrow> 'a CodeGeneratorBase_scheme result)"
      by (simp del: seq.simps)
  qed
  fix cg cg' :: "'a CodeGeneratorBase_scheme"
  assume "goto_rel k cg = Inr cg'"
  then show "offset cg' = offset cg + 7 \<and> same_frame cg cg'"
    unfolding goto_rel_seq by (rule emitsD1 [OF e])
next
  have e: "\<And>t. emits 7 (seq [emplace_u16 0x0002, emplace_u8 1, emplace_i32 t]
                  :: 'a CodeGeneratorBase_scheme \<Rightarrow> 'a CodeGeneratorBase_scheme result)"
  proof -
    fix t
    have "emits (2 + (1 + 4)) (seq [emplace_u16 0x0002, emplace_u8 1, emplace_i32 t]
                  :: 'a CodeGeneratorBase_scheme \<Rightarrow> 'a CodeGeneratorBase_scheme result)"
      by (intro emits_seq3 emits_emplace_u16 emits_emplace_u8 emits_emplace_i32)
    then show "emits 7 (seq [emplace_u16 0x0002, emplace_u8 1, emplace_i32 t]
                  :: 'a CodeGeneratorBase_scheme \<Rightarrow> 'a CodeGeneratorBase_scheme result)"
      by (simp del: seq.simps)
  qed
  fix cg :: "'a CodeGeneratorBase_scheme"
  assume "offset cg + 7 \<le> max_offset cg"
  then show "\<exists>cg'. goto_rel k cg = Inr cg'"
    unfolding goto_rel_seq by (rule emitsD2 [OF e])
qed

lemma emits_seq_map:
  fixes f :: "'b \<Rightarrow> 'a CodeGeneratorBase_scheme \<Rightarrow> 'a CodeGeneratorBase_scheme result"
  shows "(\<And>x. x \<in> set xs \<Longrightarrow> emits n (f x)) \<Longrightarrow> emits (n * length xs) (seq (map f xs))"
proof (induction xs)
  case Nil
  show ?case using emits_seq_Nil by (simp del: seq.simps)
next
  case (Cons x xs)
  from Cons.prems have 1: "emits n (f x)" by simp
  from Cons have 2: "emits (n * length xs) (seq (map f xs))" by simp
  from emits_seq_Cons [OF 1 2] show ?case by (simp del: seq.simps)
qed

lemma emits_emplace_i8: "emits 1 (emplace_i8 v)"
  unfolding emplace_i8_def by (rule emits_emplace_u8)

lemma emits_mission_offset_entry:
  "script_offset sc \<noteq> None \<Longrightarrow>
   emits 4 (mission_offset_entry sc :: 'a CodeGeneratorBase_scheme \<Rightarrow> 'a CodeGeneratorBase_scheme result)"
proof -
  assume "script_offset sc \<noteq> None"
  then obtain off where off: "script_offset sc = Some off" by auto
  have "emits 4 (emplace_i32 off :: 'a CodeGeneratorBase_scheme \<Rightarrow> 'a CodeGeneratorBase_scheme result)"
    by (rule emits_emplace_i32)
  then show ?thesis unfolding emits_def mission_offset_entry_def off by simp
qed

lemma emits_streamed_entries:
  "(\<And>sc. sc \<in> set scs \<Longrightarrow> script_size sc \<noteq> None) \<Longrightarrow>
   emits (28 * length scs)
     (seq (streamed_entries vo scs) :: 'a CodeGeneratorBase_scheme \<Rightarrow> 'a CodeGeneratorBase_scheme result)"
proof (induction scs arbitrary: vo)
  case Nil
  show ?case using emits_seq_Nil by (simp del: seq.simps)
next
  case (Cons sc scs)
  from Cons.prems obtain sz where sz: "script_size sc = Some sz" by auto
  have e: "emits (20 + (4 + 4))
            (seq [emplace_chars 20 (map toupper (path_stem sc)), emplace_u32 vo, emplace_u32 sz]
              :: 'a CodeGeneratorBase_scheme \<Rightarrow> 'a CodeGeneratorBase_scheme result)"
    by (intro emits_seq3 emits_emplace_chars emits_emplace_u32)
  from Cons have ih: "emits (28 * length scs)
     (seq (streamed_entries (vo + sz) scs) :: 'a CodeGeneratorBase_scheme \<Rightarrow> 'a CodeGeneratorBase_scheme result)"
    by simp
  have "streamed_entries vo (sc # scs)
            = [emplace_chars 20 (map toupper (path_stem sc)), emplace_u32 vo, emplace_u32 sz]
              @ (streamed_entries (vo + sz) scs
                  :: ('a CodeGeneratorBase_scheme \<Rightarrow> 'a CodeGeneratorBase_scheme result) list)"
    by (simp add: sz)
  with emits_seq_append [OF e ih] show ?case by (simp del: seq.simps)
qed


subsection \<open>The segments of the header\<close>

lemma segment_extends:
  fixes body :: "('a CodeGeneratorBase_scheme \<Rightarrow> 'a CodeGeneratorBase_scheme result) list"
  assumes "seg = seq (goto_rel k # body)" and "extends m (seq body)" and "m = k + 1"
  shows "extends (8 + k) seg" and "trampolined seg"
proof -
  from assms(2,3) have b: "extends (k + 1) (seq body)" by simp
  from extends_seq_Cons [OF extends_goto_rel b, of k] have "extends (7 + (k + 1)) (seq (goto_rel k # body))" .
  then show "extends (8 + k) seg" unfolding assms(1) by (simp del: seq.simps)
  from trampolinedI [OF b] show "trampolined seg" unfolding assms(1) .
qed

lemma segment_emits:
  fixes body :: "('a CodeGeneratorBase_scheme \<Rightarrow> 'a CodeGeneratorBase_scheme result) list"
  assumes "seg = seq (goto_rel k # body)" and "emits m (seq body)" and "m = k + 1"
  shows "emits (8 + k) seg"
proof -
  from assms(2,3) have b: "emits (k + 1) (seq body)" by simp
  from emits_seq_Cons [OF emits_goto_rel b, of k] have "emits (7 + (k + 1)) (seq (goto_rel k # body))" .
  then show "emits (8 + k) seg" unfolding assms(1) by (simp del: seq.simps)
qed



lemma variables_segment_form:
  "variables_segment header =
     seq (goto_rel (size_global_vars_space header - 8)
          # [emplace_i8 (target_id (version header)), emplace_fill (size_global_vars_space header - 8) 0])"
  by (simp add: variables_segment_def Let_def del: seq.simps)

lemma variables_segment_extends:
  "extends (8 + (size_global_vars_space header - 8))
     (variables_segment header :: 'a CodeGeneratorBase_scheme \<Rightarrow> 'a CodeGeneratorBase_scheme result)"
  "trampolined (variables_segment header :: 'a CodeGeneratorBase_scheme \<Rightarrow> 'a CodeGeneratorBase_scheme result)"
proof -
  have b: "extends (1 + (size_global_vars_space header - 8 + 0))
            (seq [emplace_i8 (target_id (version header)), emplace_fill (size_global_vars_space header - 8) 0]
              :: 'a CodeGeneratorBase_scheme \<Rightarrow> 'a CodeGeneratorBase_scheme result)"
    by (intro extends_seq_Cons extends_emplace_i8 extends_emplace_fill extends_seq_Nil)
  show "extends (8 + (size_global_vars_space header - 8))
     (variables_segment header :: 'a CodeGeneratorBase_scheme \<Rightarrow> 'a CodeGeneratorBase_scheme result)"
    by (rule segment_extends(1) [OF variables_segment_form b]) simp
  show "trampolined (variables_segment header :: 'a CodeGeneratorBase_scheme \<Rightarrow> 'a CodeGeneratorBase_scheme result)"
    by (rule segment_extends(2) [OF variables_segment_form b]) simp
qed

lemma variables_segment_emits:
  "emits (8 + (size_global_vars_space header - 8))
     (variables_segment header :: 'a CodeGeneratorBase_scheme \<Rightarrow> 'a CodeGeneratorBase_scheme result)"
proof -
  have b: "emits (1 + (size_global_vars_space header - 8 + 0))
            (seq [emplace_i8 (target_id (version header)), emplace_fill (size_global_vars_space header - 8) 0]
              :: 'a CodeGeneratorBase_scheme \<Rightarrow> 'a CodeGeneratorBase_scheme result)"
    by (intro emits_seq_Cons emits_emplace_i8 emits_emplace_fill emits_seq_Nil)
  show ?thesis by (rule segment_emits [OF variables_segment_form b]) simp
qed



lemma models_segment_form:
  "models_segment header =
     seq (goto_rel (4 + (24 * (1 + length (models header))))
          # ([emplace_u8 (nextseg_id (version header) 0),
              emplace_u32 (of_nat (1 + length (models header))),
              emplace_chars 24 []]
             @ map (\<lambda>model. emplace_chars 24 model) (models header)))"
  by (simp add: models_segment_def del: seq.simps)

lemma models_segment_extends:
  "extends (8 + (4 + (24 * (1 + length (models header)))))
     (models_segment header :: 'a CodeGeneratorBase_scheme \<Rightarrow> 'a CodeGeneratorBase_scheme result)"
  "trampolined (models_segment header :: 'a CodeGeneratorBase_scheme \<Rightarrow> 'a CodeGeneratorBase_scheme result)"
proof -
  have h: "extends (1 + (4 + (24 + 0)))
            (seq [emplace_u8 (nextseg_id (version header) 0),
              emplace_u32 (of_nat (1 + length (models header))),
              emplace_chars 24 []]
              :: 'a CodeGeneratorBase_scheme \<Rightarrow> 'a CodeGeneratorBase_scheme result)"
    by (intro extends_seq_Cons extends_emplace_u8 extends_emplace_u32 extends_emplace_chars extends_seq_Nil)
  have t: "extends (24 * length (models header))
            (seq (map (\<lambda>model. emplace_chars 24 model) (models header))
              :: 'a CodeGeneratorBase_scheme \<Rightarrow> 'a CodeGeneratorBase_scheme result)"
    by (rule extends_seq_map) (rule extends_emplace_chars)
  note b = extends_seq_append [OF h t]
  show "extends (8 + (4 + (24 * (1 + length (models header)))))
     (models_segment header :: 'a CodeGeneratorBase_scheme \<Rightarrow> 'a CodeGeneratorBase_scheme result)"
    by (rule segment_extends(1) [OF models_segment_form b]) simp
  show "trampolined (models_segment header :: 'a CodeGeneratorBase_scheme \<Rightarrow> 'a CodeGeneratorBase_scheme result)"
    by (rule segment_extends(2) [OF models_segment_form b]) simp
qed

lemma models_segment_emits:
  "emits (8 + (4 + (24 * (1 + length (models header)))))
     (models_segment header :: 'a CodeGeneratorBase_scheme \<Rightarrow> 'a CodeGeneratorBase_scheme result)"
proof -
  have h: "emits (1 + (4 + 24))
            (seq [emplace_u8 (nextseg_id (version header) 0),
              emplace_u32 (of_nat (1 + length (models header))),
              emplace_chars 24 []]
              :: 'a CodeGeneratorBase_scheme \<Rightarrow> 'a CodeGeneratorBase_scheme result)"
    by (intro emits_seq3 emits_emplace_u8 emits_emplace_u32 emits_emplace_chars)
  have t: "emits (24 * length (models header))
            (seq (map (\<lambda>model. emplace_chars 24 model) (models header))
              :: 'a CodeGeneratorBase_scheme \<Rightarrow> 'a CodeGeneratorBase_scheme result)"
    by (rule emits_seq_map) (rule emits_emplace_chars)
  note b = emits_seq_append [OF h t]
  show ?thesis by (rule segment_emits [OF models_segment_form b]) simp
qed


lemma scm_info_segment_form:
  "scm_info_segment header st =
     seq (goto_rel (scm_info_skip header st)
          # ([emplace_u8 (nextseg_id (version header) 1),
               emplace_u32 (main_size st),
               emplace_u32 (largest_mission_size st),
               emplace_u16 (of_nat (length (missions st))),
               emplace_u16 0]
              @ (if version header = SanAndreas then [emplace_u32 0] else [])
              @ map mission_offset_entry (missions st)))"
  by (simp add: scm_info_segment_def scm_info_skip_def Let_def del: seq.simps)

lemma scm_info_segment_extends:
  "extends (8 + scm_info_skip header st) (scm_info_segment header st :: 'a CodeGeneratorBase_scheme \<Rightarrow> 'a CodeGeneratorBase_scheme result)"
  "trampolined (scm_info_segment header st :: 'a CodeGeneratorBase_scheme \<Rightarrow> 'a CodeGeneratorBase_scheme result)"
proof -
  have h: "extends (1 + (4 + (4 + (2 + (2 + 0)))))
            (seq [emplace_u8 (nextseg_id (version header) 1),
               emplace_u32 (main_size st),
               emplace_u32 (largest_mission_size st),
               emplace_u16 (of_nat (length (missions st))),
               emplace_u16 0] :: 'a CodeGeneratorBase_scheme \<Rightarrow> 'a CodeGeneratorBase_scheme result)"
    by (intro extends_seq_Cons extends_emplace_u8 extends_emplace_u32 extends_emplace_u16 extends_seq_Nil)
  have m: "extends (if version header = SanAndreas then 4 else 0)
            (seq (if version header = SanAndreas then [emplace_u32 0] else []) :: 'a CodeGeneratorBase_scheme \<Rightarrow> 'a CodeGeneratorBase_scheme result)"
  proof (cases "version header = SanAndreas")
    case True
    have "extends (4 + 0) (seq [emplace_u32 0] :: 'a CodeGeneratorBase_scheme \<Rightarrow> 'a CodeGeneratorBase_scheme result)"
      by (intro extends_seq_Cons extends_emplace_u32 extends_seq_Nil)
    with True show ?thesis by (simp del: seq.simps)
  next
    case False
    have "extends 0 (seq [] :: 'a CodeGeneratorBase_scheme \<Rightarrow> 'a CodeGeneratorBase_scheme result)" by (rule extends_seq_Nil)
    with False show ?thesis by (simp del: seq.simps)
  qed
  have t: "extends (4 * length (missions st)) (seq (map mission_offset_entry (missions st)) :: 'a CodeGeneratorBase_scheme \<Rightarrow> 'a CodeGeneratorBase_scheme result)"
    by (rule extends_seq_map) (rule extends_mission_offset_entry)
  note b = extends_seq_append [OF h extends_seq_append [OF m t]]
  show "extends (8 + scm_info_skip header st) (scm_info_segment header st :: 'a CodeGeneratorBase_scheme \<Rightarrow> 'a CodeGeneratorBase_scheme result)"
    by (rule segment_extends(1) [OF scm_info_segment_form b]) (simp add: scm_info_skip_def)
  show "trampolined (scm_info_segment header st :: 'a CodeGeneratorBase_scheme \<Rightarrow> 'a CodeGeneratorBase_scheme result)"
    by (rule segment_extends(2) [OF scm_info_segment_form b]) (simp add: scm_info_skip_def)
qed

lemma scm_info_segment_emits:
  assumes "\<And>sc. sc \<in> set (missions st) \<Longrightarrow> script_offset sc \<noteq> None"
  shows "emits (8 + scm_info_skip header st) (scm_info_segment header st :: 'a CodeGeneratorBase_scheme \<Rightarrow> 'a CodeGeneratorBase_scheme result)"
proof -
  have h: "emits (1 + (4 + (4 + (2 + (2 + 0)))))
            (seq [emplace_u8 (nextseg_id (version header) 1),
               emplace_u32 (main_size st),
               emplace_u32 (largest_mission_size st),
               emplace_u16 (of_nat (length (missions st))),
               emplace_u16 0] :: 'a CodeGeneratorBase_scheme \<Rightarrow> 'a CodeGeneratorBase_scheme result)"
    by (intro emits_seq_Cons emits_emplace_u8 emits_emplace_u32 emits_emplace_u16 emits_seq_Nil)
  have m: "emits (if version header = SanAndreas then 4 else 0)
            (seq (if version header = SanAndreas then [emplace_u32 0] else []) :: 'a CodeGeneratorBase_scheme \<Rightarrow> 'a CodeGeneratorBase_scheme result)"
  proof (cases "version header = SanAndreas")
    case True
    have "emits (4 + 0) (seq [emplace_u32 0] :: 'a CodeGeneratorBase_scheme \<Rightarrow> 'a CodeGeneratorBase_scheme result)"
      by (intro emits_seq_Cons emits_emplace_u32 emits_seq_Nil)
    with True show ?thesis by (simp del: seq.simps)
  next
    case False
    have "emits 0 (seq [] :: 'a CodeGeneratorBase_scheme \<Rightarrow> 'a CodeGeneratorBase_scheme result)" by (rule emits_seq_Nil)
    with False show ?thesis by (simp del: seq.simps)
  qed
  have t: "emits (4 * length (missions st)) (seq (map mission_offset_entry (missions st)) :: 'a CodeGeneratorBase_scheme \<Rightarrow> 'a CodeGeneratorBase_scheme result)"
    by (rule emits_seq_map) (rule emits_mission_offset_entry, rule assms)
  note b = emits_seq_append [OF h emits_seq_append [OF m t]]
  show ?thesis
    by (rule segment_emits [OF scm_info_segment_form b]) (simp add: scm_info_skip_def)
qed

lemma streamed_segment_form:
  "streamed_segment header st =
     seq (goto_rel (4 + 4 + (28 * (1 + length (streameds st))))
          # ([emplace_u8 (nextseg_id (version header) 2),
           emplace_u32 (largest_streamed_size st),
           emplace_u32 (of_nat (1 + length (streameds st)))]
          @ streamed_entries (multifile_size st) (streameds st)
          @ [emplace_chars 20 [0x41, 0x41, 0x41],
             emplace_u32 0,
             emplace_u32 8]))"
  by (simp add: streamed_segment_def del: seq.simps)

lemma streamed_segment_extends:
  "extends (8 + (4 + 4 + (28 * (1 + length (streameds st))))) (streamed_segment header st :: 'a CodeGeneratorBase_scheme \<Rightarrow> 'a CodeGeneratorBase_scheme result)"
  "trampolined (streamed_segment header st :: 'a CodeGeneratorBase_scheme \<Rightarrow> 'a CodeGeneratorBase_scheme result)"
proof -
  have h: "extends (1 + (4 + (4 + 0)))
            (seq [emplace_u8 (nextseg_id (version header) 2),
           emplace_u32 (largest_streamed_size st),
           emplace_u32 (of_nat (1 + length (streameds st)))] :: 'a CodeGeneratorBase_scheme \<Rightarrow> 'a CodeGeneratorBase_scheme result)"
    by (intro extends_seq_Cons extends_emplace_u8 extends_emplace_u32 extends_seq_Nil)
  have e: "extends (20 + (4 + (4 + 0)))
            (seq [emplace_chars 20 [0x41, 0x41, 0x41], emplace_u32 0, emplace_u32 8] :: 'a CodeGeneratorBase_scheme \<Rightarrow> 'a CodeGeneratorBase_scheme result)"
    by (intro extends_seq_Cons extends_emplace_chars extends_emplace_u32 extends_seq_Nil)
  note b = extends_seq_append [OF h extends_seq_append [OF extends_streamed_entries e]]
  show "extends (8 + (4 + 4 + (28 * (1 + length (streameds st))))) (streamed_segment header st :: 'a CodeGeneratorBase_scheme \<Rightarrow> 'a CodeGeneratorBase_scheme result)"
    by (rule segment_extends(1) [OF streamed_segment_form b]) simp
  show "trampolined (streamed_segment header st :: 'a CodeGeneratorBase_scheme \<Rightarrow> 'a CodeGeneratorBase_scheme result)"
    by (rule segment_extends(2) [OF streamed_segment_form b]) simp
qed

lemma streamed_segment_emits:
  assumes "\<And>sc. sc \<in> set (streameds st) \<Longrightarrow> script_size sc \<noteq> None"
  shows "emits (8 + (4 + 4 + (28 * (1 + length (streameds st))))) (streamed_segment header st :: 'a CodeGeneratorBase_scheme \<Rightarrow> 'a CodeGeneratorBase_scheme result)"
proof -
  have h: "emits (1 + (4 + 4))
            (seq [emplace_u8 (nextseg_id (version header) 2),
           emplace_u32 (largest_streamed_size st),
           emplace_u32 (of_nat (1 + length (streameds st)))] :: 'a CodeGeneratorBase_scheme \<Rightarrow> 'a CodeGeneratorBase_scheme result)"
    by (intro emits_seq3 emits_emplace_u8 emits_emplace_u32)
  have e: "emits (20 + (4 + 4))
            (seq [emplace_chars 20 [0x41, 0x41, 0x41], emplace_u32 0, emplace_u32 8] :: 'a CodeGeneratorBase_scheme \<Rightarrow> 'a CodeGeneratorBase_scheme result)"
    by (intro emits_seq3 emits_emplace_chars emits_emplace_u32)
  have m: "emits (28 * length (streameds st))
            (seq (streamed_entries (multifile_size st) (streameds st)) :: 'a CodeGeneratorBase_scheme \<Rightarrow> 'a CodeGeneratorBase_scheme result)"
    by (rule emits_streamed_entries) (rule assms)
  note b = emits_seq_append [OF h emits_seq_append [OF m e]]
  show ?thesis by (rule segment_emits [OF streamed_segment_form b]) simp
qed

lemma unknown_segment_form:
  "unknown_segment header = seq (goto_rel 4 # [emplace_u8 (nextseg_id (version header) 3), emplace_u32 0])"
  by (simp add: unknown_segment_def del: seq.simps)

lemma unknown_segment_extends:
  "extends (8 + 4) (unknown_segment header :: 'a CodeGeneratorBase_scheme \<Rightarrow> 'a CodeGeneratorBase_scheme result)"
  "trampolined (unknown_segment header :: 'a CodeGeneratorBase_scheme \<Rightarrow> 'a CodeGeneratorBase_scheme result)"
proof -
  have b: "extends (1 + (4 + 0)) (seq [emplace_u8 (nextseg_id (version header) 3), emplace_u32 0] :: 'a CodeGeneratorBase_scheme \<Rightarrow> 'a CodeGeneratorBase_scheme result)"
    by (intro extends_seq_Cons extends_emplace_u8 extends_emplace_u32 extends_seq_Nil)
  show "extends (8 + 4) (unknown_segment header :: 'a CodeGeneratorBase_scheme \<Rightarrow> 'a CodeGeneratorBase_scheme result)"
    by (rule segment_extends(1) [OF unknown_segment_form b]) simp
  show "trampolined (unknown_segment header :: 'a CodeGeneratorBase_scheme \<Rightarrow> 'a CodeGeneratorBase_scheme result)"
    by (rule segment_extends(2) [OF unknown_segment_form b]) simp
qed

lemma unknown_segment_emits: "emits (8 + 4) (unknown_segment header :: 'a CodeGeneratorBase_scheme \<Rightarrow> 'a CodeGeneratorBase_scheme result)"
proof -
  have b: "emits (1 + 4) (seq [emplace_u8 (nextseg_id (version header) 3), emplace_u32 0] :: 'a CodeGeneratorBase_scheme \<Rightarrow> 'a CodeGeneratorBase_scheme result)"
    by (intro emits_seq2 emits_emplace_u8 emits_emplace_u32)
  show ?thesis by (rule segment_emits [OF unknown_segment_form b]) simp
qed

lemma unknown2_segment_form:
  "unknown2_segment header =
     seq (goto_rel (4 + 1 + 1 + 2)
          # [emplace_u8 (nextseg_id (version header) 4),
              emplace_u32 (of_nat (size_global_vars_space header - 8)),
              emplace_u8 62,
              emplace_u8 2,
              emplace_u16 0])"
  by (simp add: unknown2_segment_def Let_def del: seq.simps)

lemma unknown2_segment_extends:
  "extends (8 + (4 + 1 + 1 + 2)) (unknown2_segment header :: 'a CodeGeneratorBase_scheme \<Rightarrow> 'a CodeGeneratorBase_scheme result)"
  "trampolined (unknown2_segment header :: 'a CodeGeneratorBase_scheme \<Rightarrow> 'a CodeGeneratorBase_scheme result)"
proof -
  have b: "extends (1 + (4 + (1 + (1 + (2 + 0)))))
            (seq [emplace_u8 (nextseg_id (version header) 4),
              emplace_u32 (of_nat (size_global_vars_space header - 8)),
              emplace_u8 62,
              emplace_u8 2,
              emplace_u16 0] :: 'a CodeGeneratorBase_scheme \<Rightarrow> 'a CodeGeneratorBase_scheme result)"
    by (intro extends_seq_Cons extends_emplace_u8 extends_emplace_u32 extends_emplace_u16 extends_seq_Nil)
  show "extends (8 + (4 + 1 + 1 + 2)) (unknown2_segment header :: 'a CodeGeneratorBase_scheme \<Rightarrow> 'a CodeGeneratorBase_scheme result)"
    by (rule segment_extends(1) [OF unknown2_segment_form b]) simp
  show "trampolined (unknown2_segment header :: 'a CodeGeneratorBase_scheme \<Rightarrow> 'a CodeGeneratorBase_scheme result)"
    by (rule segment_extends(2) [OF unknown2_segment_form b]) simp
qed

lemma unknown2_segment_emits: "emits (8 + (4 + 1 + 1 + 2)) (unknown2_segment header :: 'a CodeGeneratorBase_scheme \<Rightarrow> 'a CodeGeneratorBase_scheme result)"
proof -
  have b: "emits (1 + (4 + (1 + (1 + (2 + 0)))))
            (seq [emplace_u8 (nextseg_id (version header) 4),
              emplace_u32 (of_nat (size_global_vars_space header - 8)),
              emplace_u8 62,
              emplace_u8 2,
              emplace_u16 0] :: 'a CodeGeneratorBase_scheme \<Rightarrow> 'a CodeGeneratorBase_scheme result)"
    by (intro emits_seq_Cons emits_emplace_u8 emits_emplace_u32 emits_emplace_u16 emits_seq_Nil)
  show ?thesis by (rule segment_emits [OF unknown2_segment_form b]) simp
qed


subsection \<open>The header as a whole\<close>

lemma header_segments_trampolined:
  "seg \<in> set (header_segments header st) \<Longrightarrow> trampolined (seg :: 'a CodeGeneratorBase_scheme \<Rightarrow> 'a CodeGeneratorBase_scheme result)"
  by (auto simp: header_segments_def variables_segment_extends(2) models_segment_extends(2)
      scm_info_segment_extends(2) streamed_segment_extends(2) unknown_segment_extends(2)
      unknown2_segment_extends(2) split: if_splits)

lemma header_segments_extends:
  "extends (header_emitted_size header st) (seq (header_segments header st) :: 'a CodeGeneratorBase_scheme \<Rightarrow> 'a CodeGeneratorBase_scheme result)"
proof (cases "version header = SanAndreas")
  case True
  have "extends ((8 + (size_global_vars_space header - 8))
     + ((8 + (4 + (24 * (1 + length (models header)))))
     + ((8 + scm_info_skip header st)
     + ((8 + (4 + 4 + (28 * (1 + length (streameds st))))) + ((8 + 4) + ((8 + (4 + 1 + 1 + 2)) + 0))))))
     (seq [variables_segment header, models_segment header, scm_info_segment header st,
           streamed_segment header st, unknown_segment header, unknown2_segment header] :: 'a CodeGeneratorBase_scheme \<Rightarrow> 'a CodeGeneratorBase_scheme result)"
    by (intro extends_seq_Cons variables_segment_extends(1) models_segment_extends(1)
        scm_info_segment_extends(1) streamed_segment_extends(1) unknown_segment_extends(1)
        unknown2_segment_extends(1) extends_seq_Nil)
  with True show ?thesis
    by (simp add: header_segments_def header_emitted_size_def add.assoc del: seq.simps)
next
  case False
  have "extends ((8 + (size_global_vars_space header - 8))
     + ((8 + (4 + (24 * (1 + length (models header)))))
     + ((8 + scm_info_skip header st) + 0)))
     (seq [variables_segment header, models_segment header, scm_info_segment header st] :: 'a CodeGeneratorBase_scheme \<Rightarrow> 'a CodeGeneratorBase_scheme result)"
    by (intro extends_seq_Cons variables_segment_extends(1) models_segment_extends(1)
        scm_info_segment_extends(1) extends_seq_Nil)
  with False show ?thesis
    by (simp add: header_segments_def header_emitted_size_def add.assoc del: seq.simps)
qed

lemma header_segments_emits:
  assumes m: "\<And>sc. sc \<in> set (missions st) \<Longrightarrow> script_offset sc \<noteq> None"
    and s: "\<And>sc. sc \<in> set (streameds st) \<Longrightarrow> script_size sc \<noteq> None"
  shows "emits (header_emitted_size header st) (seq (header_segments header st) :: 'a CodeGeneratorBase_scheme \<Rightarrow> 'a CodeGeneratorBase_scheme result)"
proof (cases "version header = SanAndreas")
  case True
  have "emits ((8 + (size_global_vars_space header - 8))
     + ((8 + (4 + (24 * (1 + length (models header)))))
     + ((8 + scm_info_skip header st)
     + ((8 + (4 + 4 + (28 * (1 + length (streameds st))))) + ((8 + 4) + ((8 + (4 + 1 + 1 + 2)) + 0))))))
     (seq [variables_segment header, models_segment header, scm_info_segment header st,
           streamed_segment header st, unknown_segment header, unknown2_segment header] :: 'a CodeGeneratorBase_scheme \<Rightarrow> 'a CodeGeneratorBase_scheme result)"
    by (intro emits_seq_Cons variables_segment_emits models_segment_emits
        scm_info_segment_emits streamed_segment_emits unknown_segment_emits
        unknown2_segment_emits emits_seq_Nil m s)
  with True show ?thesis
    by (simp add: header_segments_def header_emitted_size_def add.assoc del: seq.simps)
next
  case False
  have "emits ((8 + (size_global_vars_space header - 8))
     + ((8 + (4 + (24 * (1 + length (models header)))))
     + ((8 + scm_info_skip header st) + 0)))
     (seq [variables_segment header, models_segment header, scm_info_segment header st] :: 'a CodeGeneratorBase_scheme \<Rightarrow> 'a CodeGeneratorBase_scheme result)"
    by (intro emits_seq_Cons variables_segment_emits models_segment_emits
        scm_info_segment_emits emits_seq_Nil m)
  with False show ?thesis
    by (simp add: header_segments_def header_emitted_size_def add.assoc del: seq.simps)
qed

lemma scan_scripts_lists:
  "scan_scripts scs st0 = Some st \<Longrightarrow>
   missions st = missions st0 @ filter (\<lambda>sc. script_type sc = Mission) scs
   \<and> streameds st = streameds st0 @ filter (\<lambda>sc. script_type sc = StreamedScript) scs"
proof (induction scs arbitrary: st0)
  case Nil
  then show ?case by simp
next
  case (Cons sc scs)
  from Cons.prems obtain sz where sz: "script_size sc = Some sz"
    by (cases "script_size sc") simp_all
  show ?case
  proof (cases "script_type sc = Mission")
    case True
    with Cons.prems sz Cons.IH [of "st0\<lparr>missions := missions st0 @ [sc],
                  multifile_size := multifile_size st0 + sz,
                  largest_mission_size :=
                    (if largest_mission_size st0 < sz then sz else largest_mission_size st0)\<rparr>"]
    show ?thesis by simp
  next
    case False
    note nm = this
    show ?thesis
    proof (cases "script_type sc = StreamedScript")
      case True
      with nm Cons.prems sz Cons.IH [of "st0\<lparr>streameds := streameds st0 @ [sc],
                  largest_streamed_size :=
                    (if largest_streamed_size st0 < sz then sz else largest_streamed_size st0)\<rparr>"]
      show ?thesis by simp
    next
      case False
      with nm Cons.prems sz Cons.IH [of "st0\<lparr>main_size := main_size st0 + sz,
                  multifile_size := multifile_size st0 + sz\<rparr>"]
      show ?thesis by simp
    qed
  qed
qed

lemma scan_scripts_succeeds:
  "(\<And>sc. sc \<in> set scs \<Longrightarrow> script_size sc \<noteq> None) \<Longrightarrow> \<exists>st. scan_scripts scs st0 = Some st"
proof (induction scs arbitrary: st0)
  case Nil
  show ?case by simp
next
  case (Cons sc scs)
  from Cons.prems obtain sz where sz: "script_size sc = Some sz" by auto
  from Cons.prems have "\<And>x. x \<in> set scs \<Longrightarrow> script_size x \<noteq> None" by simp
  from Cons.IH [OF this] sz show ?case by simp
qed

lemma header_locals_lists:
  "header_locals header = Some st \<Longrightarrow>
   missions st = scripts_of Mission header \<and> streameds st = scripts_of StreamedScript header"
  using scan_scripts_lists [of "scripts header" _ st]
  by (simp add: header_locals_def scripts_of_def Let_def)

lemma header_locals_succeeds:
  "(\<And>sc. sc \<in> set (scripts header) \<Longrightarrow> script_size sc \<noteq> None) \<Longrightarrow> \<exists>st. header_locals header = Some st"
  using scan_scripts_succeeds [of "scripts header"]
  by (simp add: header_locals_def Let_def)

lemma header_size_relation:
  assumes "header_locals header = Some st" and "8 \<le> size_global_vars_space header"
  shows "header_emitted_size header st + 4 * num_missions header
           + (if version header = SanAndreas then 28 * num_streamed header else 0)
         = CompiledScmHeader_compiled_size header + 4 * length (scripts_of Mission header)
           + (if version header = SanAndreas then 28 * length (scripts_of StreamedScript header) else 0)"
  using header_locals_lists [OF assms(1)] assms(2)
  by (cases "version header")
     (simp_all add: header_emitted_size_def CompiledScmHeader_compiled_size_def scm_info_skip_def Let_def)


lemma wf_setup_buffer: "wf_sink (setup_buffer n mem cg)"
  by (simp add: wf_sink_def setup_buffer_def)

lemma setup_buffer_simps [simp]:
  "offset (setup_buffer n mem cg) = 0"
  "max_offset (setup_buffer n mem cg) = n"
  by (simp_all add: setup_buffer_def)

lemma generate_data_returns_D:
  assumes r: "generate_data mem cg = Inr cg'"
  shows "\<exists>st. header_locals (compiled_header cg) = Some st
           \<and> offset cg' = header_emitted_size (compiled_header cg) st
           \<and> max_offset cg' = CompiledScmHeader_compiled_size (compiled_header cg)"
proof -
  let ?hd = "compiled_header cg"
  let ?c0 = "setup_buffer (CompiledScmHeader_compiled_size ?hd) mem cg"
  from r obtain st where st: "header_locals ?hd = Some st"
    and run: "seq (header_segments ?hd st) ?c0 = Inr cg'"
    by (auto simp: generate_data_def generate_code_header_def split: option.splits)
  from header_segments_extends [of ?hd st] wf_setup_buffer [of _ mem cg] run
  have "offset cg' = offset ?c0 + header_emitted_size ?hd st" "max_offset cg' = max_offset ?c0"
    unfolding extends_def by blast+
  with st show ?thesis by simp
qed

lemma generate_data_size:
  assumes r: "generate_data mem cg = Inr cg'" and sg: "8 \<le> size_global_vars_space (compiled_header cg)"
  shows "offset cg' + 4 * num_missions (compiled_header cg)
           + (if version (compiled_header cg) = SanAndreas then 28 * num_streamed (compiled_header cg) else 0)
         = CompiledScmHeader_compiled_size (compiled_header cg)
           + 4 * length (scripts_of Mission (compiled_header cg))
           + (if version (compiled_header cg) = SanAndreas
              then 28 * length (scripts_of StreamedScript (compiled_header cg)) else 0)"
    and "max_offset cg' = CompiledScmHeader_compiled_size (compiled_header cg)"
proof -
  from generate_data_returns_D [OF r] obtain st where st: "header_locals (compiled_header cg) = Some st"
    and o: "offset cg' = header_emitted_size (compiled_header cg) st"
    and m: "max_offset cg' = CompiledScmHeader_compiled_size (compiled_header cg)" by blast
  from header_size_relation [OF st sg] o
  show "offset cg' + 4 * num_missions (compiled_header cg)
           + (if version (compiled_header cg) = SanAndreas then 28 * num_streamed (compiled_header cg) else 0)
         = CompiledScmHeader_compiled_size (compiled_header cg)
           + 4 * length (scripts_of Mission (compiled_header cg))
           + (if version (compiled_header cg) = SanAndreas
              then 28 * length (scripts_of StreamedScript (compiled_header cg)) else 0)"
    by simp
  from m show "max_offset cg' = CompiledScmHeader_compiled_size (compiled_header cg)" .
qed

lemma generate_data_succeeds:
  assumes sg: "8 \<le> size_global_vars_space (compiled_header cg)"
    and sizes: "\<And>sc. sc \<in> set (scripts (compiled_header cg)) \<Longrightarrow> script_size sc \<noteq> None"
    and offs: "\<And>sc. sc \<in> set (scripts (compiled_header cg)) \<Longrightarrow> script_type sc = Mission \<Longrightarrow>
                 script_offset sc \<noteq> None"
    and nm: "num_missions (compiled_header cg) = length (scripts_of Mission (compiled_header cg))"
    and ns: "version (compiled_header cg) = SanAndreas \<Longrightarrow>
             num_streamed (compiled_header cg) = length (scripts_of StreamedScript (compiled_header cg))"
  shows "\<exists>cg'. generate_data mem cg = Inr cg' \<and> offset cg' = max_offset cg'
           \<and> max_offset cg' = CompiledScmHeader_compiled_size (compiled_header cg)"
proof -
  let ?hd = "compiled_header cg"
  let ?c0 = "setup_buffer (CompiledScmHeader_compiled_size ?hd) mem cg"
  from header_locals_succeeds [OF sizes] obtain st where st: "header_locals ?hd = Some st" by blast
  from header_locals_lists [OF st] have l: "missions st = scripts_of Mission ?hd"
    "streameds st = scripts_of StreamedScript ?hd" by simp_all
  from header_size_relation [OF st sg] nm ns
  have eq: "header_emitted_size ?hd st = CompiledScmHeader_compiled_size ?hd"
    by (simp split: if_splits)
  have m: "\<And>sc. sc \<in> set (missions st) \<Longrightarrow> script_offset sc \<noteq> None"
    using offs unfolding l scripts_of_def by simp
  have s: "\<And>sc. sc \<in> set (streameds st) \<Longrightarrow> script_size sc \<noteq> None"
    using sizes unfolding l scripts_of_def by simp
  have "offset ?c0 + header_emitted_size ?hd st \<le> max_offset ?c0" by (simp add: eq)
  from emitsD2 [OF header_segments_emits [OF m s] this]
  obtain cg' where run: "seq (header_segments ?hd st) ?c0 = Inr cg'" by blast
  with st have g: "generate_data mem cg = Inr cg'"
    by (simp add: generate_data_def generate_code_header_def)
  from generate_data_returns_D [OF g] st eq
  have "offset cg' = CompiledScmHeader_compiled_size ?hd" "max_offset cg' = CompiledScmHeader_compiled_size ?hd"
    by simp_all
  with g show ?thesis by simp
qed


subsection \<open>The example headers\<close>

lemma example_header_facts:
  "compiled_header (data_codegen h) = h"
  "8 \<le> size_global_vars_space example_header"
  "version example_header = SanAndreas"
  "num_missions example_header = 1" "num_streamed example_header = 1"
  "length (scripts_of Mission example_header) = 1"
  "length (scripts_of StreamedScript example_header) = 1"
  "CompiledScmHeader_compiled_size example_header = 172"
  "\<forall>sc \<in> set (scripts example_header). script_size sc \<noteq> None"
  "\<forall>sc \<in> set (scripts example_header). script_type sc = Mission \<longrightarrow> script_offset sc \<noteq> None"
  by (simp_all add: data_codegen_def example_header_def example_scripts_def scripts_of_def
      CompiledScmHeader_compiled_size_def)

lemma bare_header_facts:
  "compiled_header (data_codegen h) = h"
  "size_global_vars_space (bare_header v g m s) = g"
  "scripts (bare_header v g m s) = []"
  "num_missions (bare_header v g m s) = m"
  "num_streamed (bare_header v g m s) = s"
  "version (bare_header v g m s) = v"
  "scripts_of t (bare_header v g m s) = []"
  by (simp_all add: data_codegen_def bare_header_def scripts_of_def)


subsection \<open>The variables segment\<close>

lemma variables_segment_put:
  fixes cg :: "'a CodeGeneratorBase_scheme"
  assumes wf: "wf_sink cg" and sg: "8 \<le> size_global_vars_space header"
    and fits: "offset cg + size_global_vars_space header \<le> max_offset cg"
  shows "variables_segment header cg =
           Inr (put (trampoline (of_nat (offset cg + size_global_vars_space header))
                     @ target_id (version header) # replicate (size_global_vars_space header - 8) 0) cg)"
proof -
  let ?k = "size_global_vars_space header - 8"
  let ?t = "of_nat (8 + ?k + offset cg) :: 32 word"
  let ?body = "[emplace_i8 (target_id (version header)), emplace_fill ?k 0] :: ('a CodeGeneratorBase_scheme \<Rightarrow> 'a CodeGeneratorBase_scheme result) list"
  have w: "writes (trampoline ?t @ ([target_id (version header)] @ (replicate ?k 0 @ [])))
             (seq ([emplace_u16 0x0002, emplace_u8 1, emplace_i32 ?t] @ ?body))"
    unfolding emplace_i8_def
    by (intro writes_seq_append writes_trampoline writes_seq_Cons writes_emplace_u8
        writes_emplace_fill writes_seq_Nil)
  have "variables_segment header cg = bind_r (goto_rel ?k cg) (seq ?body)"
    by (simp add: variables_segment_form)
  also have "\<dots> = seq ([emplace_u16 0x0002, emplace_u8 1, emplace_i32 ?t] @ ?body) cg"
    unfolding goto_rel_seq seq_append ..
  also from wf sg fits have "\<dots> = Inr (put (trampoline ?t @ ([target_id (version header)] @ (replicate ?k 0 @ []))) cg)"
    by (intro writesD [OF w]) simp_all
  finally show ?thesis using sg by (simp add: add.commute)
qed

lemma put_fresh_sink_full:
  "length bs = n \<Longrightarrow> put bs (fresh_sink opts n) = (fresh_sink opts n)\<lparr>bytecode := bs, offset := n\<rparr>"
  by (simp add: put_def write_at_def fresh_sink_simps)

lemma trampoline_16: "trampoline 16 = [0x02, 0x00, 0x01, 0x10, 0x00, 0x00, 0x00]"
  by (simp add: trampoline_def le32_def)

lemma replicate_8: "replicate 8 x = [x, x, x, x, x, x, x, x]"
  by (simp add: eval_nat_numeral)


subsection \<open>Segments one after the other\<close>

lemma trampolined_seq_keeps:
  fixes fs :: "('a CodeGeneratorBase_scheme \<Rightarrow> 'a CodeGeneratorBase_scheme result) list"
  assumes all: "\<And>f. f \<in> set fs \<Longrightarrow> trampolined f"
  shows "wf_sink c \<Longrightarrow> seq fs c = Inr c' \<Longrightarrow>
         wf_sink c' \<and> offset c \<le> offset c' \<and> take (offset c) (bytecode c') = take (offset c) (bytecode c)"
  using all
proof (induction fs arbitrary: c)
  case Nil
  then show ?case by simp
next
  case (Cons f fs)
  from Cons.prems(2) obtain c1 where c1: "f c = Inr c1" and rest: "seq fs c1 = Inr c'"
    by (auto simp: bind_r_def split: sum.splits)
  from Cons.prems(3) have "trampolined f" by simp
  with Cons.prems(1) c1 have 1: "wf_sink c1" "offset c + 8 \<le> offset c1"
    "take (offset c) (bytecode c1) = take (offset c) (bytecode c)"
    unfolding trampolined_def by blast+
  from Cons.prems(3) have "\<And>g. g \<in> set fs \<Longrightarrow> trampolined g" by simp
  from Cons.IH [OF 1(1) rest this] have 2: "wf_sink c'" "offset c1 \<le> offset c'"
    "take (offset c1) (bytecode c') = take (offset c1) (bytecode c1)" by simp_all
  have "take (offset c) (bytecode c') = take (offset c) (take (offset c1) (bytecode c'))"
    using 1(2) by (simp add: min_def)
  also have "\<dots> = take (offset c) (bytecode c1)" using 2(3) 1(2) by (simp add: min_def)
  finally have "take (offset c) (bytecode c') = take (offset c) (bytecode c)" using 1(3) by simp
  with 1 2 show ?case by simp
qed

lemma seq_split_D:
  "seq (pre @ seg # post) c0 = Inr cF \<Longrightarrow>
   \<exists>c c'. seq pre c0 = Inr c \<and> seg c = Inr c' \<and> seq post c' = Inr cF"
  unfolding seq_append by (auto simp: bind_r_def split: sum.splits)

lemma extendsD:
  "extends n f \<Longrightarrow> wf_sink cg \<Longrightarrow> f cg = Inr cg' \<Longrightarrow> wf_sink cg' \<and> offset cg' = offset cg + n"
  unfolding extends_def by blast


section \<open>The claims\<close>

subsection \<open>C1: the emitter writes what the size oracle announces\<close>

text \<open>
  C1. For every node \<open>n\<close> of the intermediate representation (every variant of
  \<open>CompiledData.data\<close>) and every generator, hence every combination of the four
  options: whenever \<open>generate_code(n, codegen)\<close> returns, the cursor has advanced by
  exactly \<open>compiled_size(n, codegen)\<close> bytes; and it does return whenever the node is well
  formed (the bounds of \<open>Expects\<close> hold, the optionals read are set, a label of a mission
  belongs to the generator's script) and that many bytes fit in the sink.
\<close>

theorem emitted_size_is_compiled_size:
  fixes codegen :: "'a CodeGenerator_scheme"
  shows "(generate_code h n codegen = Inr codegen' \<longrightarrow>
            offset codegen' = offset codegen + compiled_size n codegen)
         \<and> (well_formed h n codegen \<and> offset codegen + compiled_size n codegen \<le> max_offset codegen \<longrightarrow>
            (\<exists>c. generate_code h n codegen = Inr c))"
  using node_size [of h n codegen codegen'] node_succeeds [of h n codegen] by blast


theorem emitted_size_is_compiled_size_witness:
  "generate_code (heap_with Main 0x100 0x10) (Command \<lparr>cmd_id = 0x0001, args = [Int8 5]\<rparr>)
       (fresh_codegen (options False False False False) 4)
     = Inr (put [0x01, 0x00, 0x04, 0x05] (fresh_codegen (options False False False False) 4))
   \<and> compiled_size (Command \<lparr>cmd_id = 0x0001, args = [Int8 5]\<rparr>)
       (fresh_codegen (options False False False False) 4) = 4
   \<and> offset (put [0x01, 0x00, 0x04, 0x05] (fresh_codegen (options False False False False) 4))
     = offset (fresh_codegen (options False False False False) 4)
       + compiled_size (Command \<lparr>cmd_id = 0x0001, args = [Int8 5]\<rparr>)
           (fresh_codegen (options False False False False) 4)
   \<and> (\<exists>c. generate_code (heap_with Main 0x100 0x10) (Command \<lparr>cmd_id = 0x0001, args = [Int8 5]\<rparr>)
            (fresh_codegen (options False False False False) 4) = Inr c)"
proof -
  let ?cg = "fresh_codegen (options False False False False) 4"
  let ?h = "heap_with Main 0x100 0x10"
  let ?n = "Command \<lparr>cmd_id = 0x0001, args = [Int8 5]\<rparr>"
  have w: "writes (le16 1 @ [0x04, 5])
             (seq [emplace_u16 1, generate_code_int8 5] :: CodeGenerator \<Rightarrow> CodeGenerator result)"
    by (rule writes_seq2 [OF writes_emplace_u16 writes_generate_code_int8])
  have "generate_code ?h ?n ?cg = seq [emplace_u16 1, generate_code_int8 5] ?cg"
    by (simp add: generate_code_command_def del: seq.simps)
  also have "\<dots> = Inr (put (le16 1 @ [0x04, 5]) ?cg)"
    by (rule writesD [OF w wf_fresh_codegen]) (simp add: fresh_codegen_simps)
  finally have run: "generate_code ?h ?n ?cg = Inr (put [0x01, 0x00, 0x04, 0x05] ?cg)"
    by (simp add: le16_def)
  have sz: "compiled_size ?n ?cg = 4"
    by (simp add: compiled_size_command_def)
  have ok: "well_formed ?h ?n ?cg \<and> offset ?cg + compiled_size ?n ?cg \<le> max_offset ?cg"
    by (simp add: sz fresh_codegen_simps del: compiled_size.simps)
  from emitted_size_is_compiled_size [of ?h ?n ?cg "put [0x01, 0x00, 0x04, 0x05] ?cg"] run ok sz
  show ?thesis by blast
qed

subsection \<open>C2: \<open>compute_labels\<close>\<close>

text \<open>
  C2. \<open>compute_labels\<close> is one forward pass over the script's nodes that starts at offset
  0. Its result is the sum of \<open>compiled_size\<close> over the nodes that are not label
  definitions (the size of the script). At each label definition the label receives, as
  its \<open>local_offset\<close>, the sum of \<open>compiled_size\<close> over the nodes before it that are not
  label definitions; the definition itself adds nothing to the sum, so two definitions in
  a row receive the same offset; and the label still has this offset when the pass ends,
  if no later node defines the same label again. The offset is a \<open>uint32_t\<close> in the source,
  and the sums are equal as values of that type (\<open>of_nat\<close>); they are equal as numbers
  whenever the script is smaller than \<open>2 ^ 32\<close> bytes.
\<close>

theorem compute_labels_offsets:
  fixes cg :: "'a CodeGenerator_scheme"
  assumes run: "compute_labels cg h = (h', sz)"
  shows
    "sz = of_nat (nonlabel_size cg (compiled cg))
     \<and> (nonlabel_size cg (compiled cg) < 2 ^ 32 \<longrightarrow> unat sz = nonlabel_size cg (compiled cg))
     \<and> (\<forall>i l. i < length (compiled cg) \<and> compiled cg ! i = LabelDef l \<longrightarrow>
           local_offset (labels_at (fst (compute_labels_loop cg (take (Suc i) (compiled cg)) (h, 0))) l)
             = Some (of_nat (nonlabel_size cg (take i (compiled cg))))
           \<and> nonlabel_size cg (take (Suc i) (compiled cg)) = nonlabel_size cg (take i (compiled cg))
           \<and> (LabelDef l \<notin> set (drop (Suc i) (compiled cg)) \<longrightarrow>
                local_offset (labels_at h' l) = Some (of_nat (nonlabel_size cg (take i (compiled cg))))))"
proof (intro conjI allI impI)
  from run have "sz = snd (compute_labels_loop cg (compiled cg) (h, 0))"
    by (simp add: compute_labels_def)
  then show sz: "sz = of_nat (nonlabel_size cg (compiled cg))"
    by (simp add: loop_offset)
  assume "nonlabel_size cg (compiled cg) < 2 ^ 32"
  with sz show "unat sz = nonlabel_size cg (compiled cg)"
    by (simp add: unat_of_nat)
next
  fix i l
  assume a: "i < length (compiled cg) \<and> compiled cg ! i = LabelDef l"
  let ?pre = "take i (compiled cg)"
  let ?st = "compute_labels_loop cg ?pre (h, 0)"
  from a have split: "take (Suc i) (compiled cg) = ?pre @ [LabelDef l]"
    by (simp add: take_Suc_LabelDef)
  have off: "snd ?st = of_nat (nonlabel_size cg ?pre)"
    by (simp add: loop_offset)
  have step: "compute_labels_loop cg (take (Suc i) (compiled cg)) (h, 0)
                = (set_local_offset l (of_nat (nonlabel_size cg ?pre)) (fst ?st),
                   of_nat (nonlabel_size cg ?pre))"
    unfolding split loop_append using off by (cases ?st) simp
  from step show 1: "local_offset (labels_at (fst (compute_labels_loop cg (take (Suc i) (compiled cg)) (h, 0))) l)
             = Some (of_nat (nonlabel_size cg ?pre))"
    by simp
  show "nonlabel_size cg (take (Suc i) (compiled cg)) = nonlabel_size cg ?pre"
    unfolding split by (simp add: nonlabel_size_append)
  assume last: "LabelDef l \<notin> set (drop (Suc i) (compiled cg))"
  have "compiled cg = take (Suc i) (compiled cg) @ drop (Suc i) (compiled cg)" by simp
  then have "compute_labels_loop cg (compiled cg) (h, 0)
      = compute_labels_loop cg (drop (Suc i) (compiled cg))
          (compute_labels_loop cg (take (Suc i) (compiled cg)) (h, 0))"
    using loop_append [of cg "take (Suc i) (compiled cg)" "drop (Suc i) (compiled cg)" "(h, 0)"] by simp
  moreover from run have "h' = fst (compute_labels_loop cg (compiled cg) (h, 0))"
    by (simp add: compute_labels_def)
  ultimately have "labels_at h' l
      = labels_at (fst (compute_labels_loop cg (take (Suc i) (compiled cg)) (h, 0))) l"
    using loop_keeps_label [OF last] by simp
  with 1 show "local_offset (labels_at h' l) = Some (of_nat (nonlabel_size cg ?pre))"
    by simp
qed

theorem compute_labels_offsets_witness:
  "snd (compute_labels ((fresh_codegen (options False False False False) 0)\<lparr>compiled := example_ir\<rparr>)
          (heap_with Mission 0 0)) = 6
   \<and> local_offset (labels_at (fst (compute_labels
          ((fresh_codegen (options False False False False) 0)\<lparr>compiled := example_ir\<rparr>)
          (heap_with Mission 0 0))) 1) = Some 2
   \<and> local_offset (labels_at (fst (compute_labels
          ((fresh_codegen (options False False False False) 0)\<lparr>compiled := example_ir\<rparr>)
          (heap_with Mission 0 0))) 2) = Some 2
   \<and> local_offset (labels_at (fst (compute_labels
          ((fresh_codegen (options False False False False) 0)\<lparr>compiled := example_ir\<rparr>)
          (heap_with Mission 0 0))) 3) = Some 6"
proof -
  let ?cg = "(fresh_codegen (options False False False False) 0)\<lparr>compiled := example_ir\<rparr>"
  let ?h = "heap_with Mission 0 0"
  have c: "compiled ?cg = example_ir" by simp
  have run: "compute_labels ?cg ?h = (fst (compute_labels ?cg ?h), snd (compute_labels ?cg ?h))"
    by simp
  note t = compute_labels_offsets [OF run, unfolded c]
  from t have "snd (compute_labels ?cg ?h) = of_nat (nonlabel_size ?cg example_ir)" by blast
  then have sz: "snd (compute_labels ?cg ?h) = 6"
    unfolding example_ir_sizes by simp
  from t have all: "\<And>i l. i < length example_ir \<and> example_ir ! i = LabelDef l \<Longrightarrow>
      LabelDef l \<notin> set (drop (Suc i) example_ir) \<Longrightarrow>
      local_offset (labels_at (fst (compute_labels ?cg ?h)) l)
        = Some (of_nat (nonlabel_size ?cg (take i example_ir)))"
    by blast
  from all [OF example_ir_labels(1) example_ir_labels(4)]
  have l1: "local_offset (labels_at (fst (compute_labels ?cg ?h)) 1) = Some 2"
    unfolding example_ir_sizes by simp
  from all [OF example_ir_labels(2) example_ir_labels(5)]
  have l2: "local_offset (labels_at (fst (compute_labels ?cg ?h)) 2) = Some 2"
    unfolding example_ir_sizes by simp
  from all [OF example_ir_labels(3) example_ir_labels(6)]
  have l3: "local_offset (labels_at (fst (compute_labels ?cg ?h)) 3) = Some 6"
    unfolding example_ir_sizes by simp
  from sz l1 l2 l3 show ?thesis by simp
qed

subsection \<open>C3: label references under \<open>use_local_offsets\<close>\<close>

text \<open>
  C3, as amended. With \<open>use_local_offsets\<close>, a label reference is emitted as the tag
  \<open>0x01\<close> followed by the negation, as a little-endian \<open>int32_t\<close>, of the label's absolute
  offset \<open>label->offset()\<close>, which is the offset of the owning script plus the label's
  local offset; the type of the owning script plays no part. (When that offset is zero
  the diagnostic of C4 is reported as well.) Stated for a well-formed sink with room for
  the five bytes and a label whose two offsets are set.
\<close>

theorem local_offsets_negate_absolute_offset:
  fixes codegen :: "'a CodeGenerator_scheme"
  assumes "wf_sink codegen" and "offset codegen + 5 \<le> max_offset codegen"
    and "use_local_offsets (opt (program codegen))"
    and "script_offset (scripts_at h (label_script (labels_at h l))) = Some so"
    and "local_offset (labels_at h l) = Some lo"
  shows "generate_code_label h l codegen =
           Inr ((put (0x01 # le32 (- (so + lo))) codegen)
                  \<lparr>program := (if so + lo = 0
                               then program_error ''XXX reference to zero offset'' (program codegen)
                               else program codegen)\<rparr>)"
proof -
  from assms(4,5) have off: "Label_offset h l = Some (so + lo)"
    by (simp add: Label_offset_def)
  from assms(1,2) obtain c1 where c1: "emplace_u8 1 codegen = Inr c1" "c1 = put [1] codegen"
    using writesD [OF writes_emplace_u8, of codegen 1] by simp
  then have "use_local_offsets (opt (program c1))" using assms(3) by simp
  with c1 off have "generate_code_label h l codegen
      = bind_r (emplace_u8 1 codegen) (emplace_local_offset (so + lo))"
    by (simp add: generate_code_label_def bind_r_def)
  with label_negated [OF assms(1,2), of "so + lo"] show ?thesis by simp
qed

theorem local_offsets_negate_absolute_offset_witness:
  "generate_code_label (heap_with StreamedScript 0x100 0x10) 0 (fresh_codegen (options False False True False) 5)
     = Inr (put [0x01, 0xF0, 0xFE, 0xFF, 0xFF] (fresh_codegen (options False False True False) 5))"
proof -
  let ?cg = "fresh_codegen (options False False True False) 5"
  let ?h = "heap_with StreamedScript 0x100 0x10"
  have 1: "offset ?cg + 5 \<le> max_offset ?cg" "use_local_offsets (opt (program ?cg))"
    by (simp_all add: fresh_codegen_simps options_def)
  have 2: "script_offset (scripts_at ?h (label_script (labels_at ?h 0))) = Some 0x100"
    "local_offset (labels_at ?h 0) = Some 0x10"
    by (simp_all add: heap_with_def)
  have 3: "le32 (- (0x100 + 0x10)) = [0xF0, 0xFE, 0xFF, 0xFF]"
    by (simp add: le32_def)
  from local_offsets_negate_absolute_offset [OF wf_fresh_codegen 1 2]
  show ?thesis unfolding 3 by simp
qed


text \<open>
  The claim as stated has the local offset negated. For a label at local offset \<open>0x10\<close>
  of a script at offset \<open>0x100\<close> the bytes are \<open>01 F0 FE FF FF\<close>, which is \<open>-0x110\<close>, and
  not \<open>01 F0 FF FF FF\<close>, which would be \<open>-0x10\<close>.
\<close>

theorem local_offsets_do_not_negate_local_offset:
  "use_local_offsets (opt (program (fresh_codegen (options False False True False) 5)))
   \<and> local_offset (labels_at (heap_with Main 0x100 0x10) 0) = Some 0x10
   \<and> generate_code_label (heap_with Main 0x100 0x10) 0 (fresh_codegen (options False False True False) 5)
       = Inr ((fresh_codegen (options False False True False) 5)
                \<lparr>bytecode := [0x01, 0xF0, 0xFE, 0xFF, 0xFF], offset := 5\<rparr>)
   \<and> 0x01 # le32 (- 0x10) = [0x01, 0xF0, 0xFF, 0xFF, 0xFF]"
  by (simp add: generate_code_label_def emplace_local_offset_def Label_offset_def heap_with_def
      emplace_i32_def emplace_u32_def emplace_u8_def bind_r_def fresh_codegen_5
      options_def le32_def)

subsection \<open>C4: the diagnostic for a zero offset\<close>

text \<open>
  C4. A label reference is emitted in a negated mode when \<open>use_local_offsets\<close> is set
  (the offset negated is \<open>label->offset()\<close>), or else when the owning script is a
  \<open>Mission\<close> or a \<open>StreamedScript\<close> (the offset negated is the local offset; the source
  asserts that the script is the generator's). In both modes, on a well-formed sink with
  room for the five bytes: when the offset is 0, the message is reported through
  \<open>program.error\<close> and the emission goes on, with the tag \<open>0x01\<close> and four zero bytes; when
  it is not 0, the tag and the negated offset are written and the program context, with
  its list of reported messages, is unchanged.
\<close>

theorem zero_offset_diagnostic:
  fixes codegen :: "'a CodeGenerator_scheme"
  assumes wf: "wf_sink codegen" and fits: "offset codegen + 5 \<le> max_offset codegen"
    and mode:
      "(use_local_offsets (opt (program codegen)) \<and> Label_offset h l = Some off)
       \<or> (\<not> use_local_offsets (opt (program codegen))
           \<and> (script_type (scripts_at h (label_script (labels_at h l))) = Mission
                \<or> script_type (scripts_at h (label_script (labels_at h l))) = StreamedScript)
           \<and> label_script (labels_at h l) = script codegen
           \<and> local_offset (labels_at h l) = Some off)"
  shows
    "(off = 0 \<longrightarrow>
        generate_code_label h l codegen
          = Inr ((put [0x01, 0x00, 0x00, 0x00, 0x00] codegen)
                   \<lparr>program := program_error ''XXX reference to zero offset'' (program codegen)\<rparr>))
     \<and> (off \<noteq> 0 \<longrightarrow>
        generate_code_label h l codegen = Inr (put (0x01 # le32 (- off)) codegen))"
proof -
  from wf fits obtain c1 where c1: "emplace_u8 1 codegen = Inr c1" "c1 = put [1] codegen"
    using writesD [OF writes_emplace_u8, of codegen 1] by simp
  then have same: "opt (program c1) = opt (program codegen)" "script c1 = script codegen"
    by (simp_all add: put_def)
  from mode c1 same have "generate_code_label h l codegen
      = bind_r (emplace_u8 1 codegen) (emplace_local_offset off)"
    by (auto simp: generate_code_label_def bind_r_def)
  with label_negated [OF wf fits, of off]
  have r: "generate_code_label h l codegen =
           Inr ((put (0x01 # le32 (- off)) codegen)
                  \<lparr>program := (if off = 0 then program_error ''XXX reference to zero offset'' (program codegen)
                               else program codegen)\<rparr>)"
    by simp
  have z: "le32 (- 0) = [0, 0, 0, 0]" by (simp add: le32_def)
  from r z show ?thesis by auto
qed

theorem zero_offset_diagnostic_witness:
  "generate_code_label (heap_with Mission 0x100 0) 0 (fresh_codegen (options False False False False) 5)
     = Inr ((put [0x01, 0x00, 0x00, 0x00, 0x00] (fresh_codegen (options False False False False) 5))
              \<lparr>program := \<lparr>opt = options False False False False,
                            reported = [''XXX reference to zero offset'']\<rparr>\<rparr>)
   \<and> generate_code_label (heap_with Main 0x100 0x10) 0 (fresh_codegen (options False False True False) 5)
     = Inr (put [0x01, 0xF0, 0xFE, 0xFF, 0xFF] (fresh_codegen (options False False True False) 5))"
proof -
  let ?a = "fresh_codegen (options False False False False) 5"
  let ?b = "fresh_codegen (options False False True False) 5"
  let ?ha = "heap_with Mission 0x100 0"
  let ?hb = "heap_with Main 0x100 0x10"
  have fa: "offset ?a + 5 \<le> max_offset ?a" and fb: "offset ?b + 5 \<le> max_offset ?b"
    by (simp_all add: fresh_codegen_simps)
  have ma: "(use_local_offsets (opt (program ?a)) \<and> Label_offset ?ha 0 = Some 0)
       \<or> (\<not> use_local_offsets (opt (program ?a))
           \<and> (script_type (scripts_at ?ha (label_script (labels_at ?ha 0))) = Mission
                \<or> script_type (scripts_at ?ha (label_script (labels_at ?ha 0))) = StreamedScript)
           \<and> label_script (labels_at ?ha 0) = script ?a
           \<and> local_offset (labels_at ?ha 0) = Some 0)"
    by (simp add: fresh_codegen_simps options_def heap_with_def)
  have mb: "(use_local_offsets (opt (program ?b)) \<and> Label_offset ?hb 0 = Some 0x110)
       \<or> (\<not> use_local_offsets (opt (program ?b))
           \<and> (script_type (scripts_at ?hb (label_script (labels_at ?hb 0))) = Mission
                \<or> script_type (scripts_at ?hb (label_script (labels_at ?hb 0))) = StreamedScript)
           \<and> label_script (labels_at ?hb 0) = script ?b
           \<and> local_offset (labels_at ?hb 0) = Some 0x110)"
    by (simp add: fresh_codegen_simps options_def heap_with_def Label_offset_def)
  have 3: "le32 (- 0x110) = [0xF0, 0xFE, 0xFF, 0xFF]"
    by (simp add: le32_def)
  from zero_offset_diagnostic [OF wf_fresh_codegen fa ma]
  have 1: "generate_code_label ?ha 0 ?a
     = Inr ((put [0x01, 0x00, 0x00, 0x00, 0x00] ?a)
              \<lparr>program := \<lparr>opt = options False False False False,
                            reported = [''XXX reference to zero offset'']\<rparr>\<rparr>)"
    by (simp add: fresh_codegen_simps program_error_def)
  from zero_offset_diagnostic [OF wf_fresh_codegen fb mb]
  have 2: "generate_code_label ?hb 0 ?b = Inr (put [0x01, 0xF0, 0xFE, 0xFF, 0xFF] ?b)"
    unfolding 3 by simp
  from 1 2 show ?thesis by simp
qed

subsection \<open>C5: the encodings of a float\<close>

text \<open>
  C5. A float has one encoding, chosen in this order: with \<open>optimize_zero_floats\<close> and a
  value equal to \<open>0.0\<close>, the tag \<open>0x04\<close> and one zero byte (size 2); otherwise, with
  \<open>use_half_float\<close>, the tag \<open>0x06\<close> and the \<open>int16_t\<close> of \<open>value * 16.0\<close>, little-endian
  (size 3); otherwise the tag \<open>0x06\<close> and the four bytes of the IEEE-754 bits, little-endian
  (size 5). \<open>compiled_size\<close> gives these sizes, and with \<open>optimize_zero_floats\<close> the
  command \<open>0x0002\<close> with the one argument \<open>float(0.0)\<close> is emitted as \<open>02 00 04 00\<close>.
  Each emission is stated for a well-formed sink in which the bytes fit.

  The value equal to \<open>0.0\<close> is a finite bit pattern that denotes the number 0 (either
  zero). The \<open>int16_t\<close> of \<open>value * 16.0\<close> is, for a finite value whose sixteenfold without
  its fraction lies between \<open>- 32768\<close> and \<open>32767\<close>, exactly that integer: sixteen times the
  number the bits denote, rounded toward zero. (Outside this range, and for the infinities
  and the NaNs, the cast has no defined result in C++.)
\<close>

theorem float_encoding:
  fixes codegen :: "'a CodeGenerator_scheme"
  assumes wf: "wf_sink codegen"
  shows
   "(optimize_zero_floats (opt (program codegen)) \<and> float_is_zero v \<longrightarrow>
       compiled_size_float v codegen = 2
       \<and> (offset codegen + 2 \<le> max_offset codegen \<longrightarrow>
            generate_code_float v codegen = Inr (put [0x04, 0x00] codegen)))
    \<and> (\<not> (optimize_zero_floats (opt (program codegen)) \<and> float_is_zero v)
        \<and> use_half_float (opt (program codegen)) \<longrightarrow>
       compiled_size_float v codegen = 3
       \<and> (offset codegen + 3 \<le> max_offset codegen \<longrightarrow>
            generate_code_float v codegen = Inr (put (0x06 # le16 (float_x16_to_int16 v)) codegen)))
    \<and> (\<not> (optimize_zero_floats (opt (program codegen)) \<and> float_is_zero v)
        \<and> \<not> use_half_float (opt (program codegen)) \<longrightarrow>
       compiled_size_float v codegen = 5
       \<and> (offset codegen + 5 \<le> max_offset codegen \<longrightarrow>
            generate_code_float v codegen = Inr (put (0x06 # le32 v) codegen)))
    \<and> (optimize_zero_floats (opt (program codegen)) \<and> offset codegen + 4 \<le> max_offset codegen \<longrightarrow>
       generate_code h (Command \<lparr>cmd_id = 0x0002, args = [Float 0]\<rparr>) codegen
         = Inr (put [0x02, 0x00, 0x04, 0x00] codegen))
    \<and> (float_is_zero v \<longleftrightarrow> float_finite v \<and> float_value v = 0)
    \<and> (float_finite v \<and> - 32768 \<le> trunc_toward_zero (float_value v * 16)
        \<and> trunc_toward_zero (float_value v * 16) \<le> 32767 \<longrightarrow>
       sint (float_x16_to_int16 v) = trunc_toward_zero (float_value v * 16))"
proof (intro conjI impI)
  assume a: "optimize_zero_floats (opt (program codegen)) \<and> float_is_zero v"
  then show "compiled_size_float v codegen = 2" by (simp add: compiled_size_float_def)
  assume "offset codegen + 2 \<le> max_offset codegen"
  with a wf show "generate_code_float v codegen = Inr (put [0x04, 0x00] codegen)"
    using writesD [OF writes_generate_code_int8 [of 0], of codegen]
    by (simp add: generate_code_float_def)
next
  assume a: "\<not> (optimize_zero_floats (opt (program codegen)) \<and> float_is_zero v)
        \<and> use_half_float (opt (program codegen))"
  then show "compiled_size_float v codegen = 3" by (auto simp: compiled_size_float_def)
  assume "offset codegen + 3 \<le> max_offset codegen"
  with a wf show "generate_code_float v codegen = Inr (put (0x06 # le16 (float_x16_to_int16 v)) codegen)"
    using writesD [OF writes_float_half [of "float_x16_to_int16 v"], of codegen]
    by (auto simp: generate_code_float_def)
next
  assume a: "\<not> (optimize_zero_floats (opt (program codegen)) \<and> float_is_zero v)
        \<and> \<not> use_half_float (opt (program codegen))"
  then show "compiled_size_float v codegen = 5" by (auto simp: compiled_size_float_def)
  assume "offset codegen + 5 \<le> max_offset codegen"
  with a wf show "generate_code_float v codegen = Inr (put (0x06 # le32 v) codegen)"
    using writesD [OF writes_float_raw [of v], of codegen]
    by (auto simp: generate_code_float_def)
next
  assume a: "optimize_zero_floats (opt (program codegen)) \<and> offset codegen + 4 \<le> max_offset codegen"
  let ?c = "\<lparr>cmd_id = 0x0002, args = [Float 0]\<rparr>"
  from a wf have 1: "emplace_u16 2 codegen = Inr (put [0x02, 0x00] codegen)"
    using writesD [OF writes_emplace_u16 [of 2], of codegen] by (simp add: le16_def)
  from a wf have wf2: "wf_sink (put [0x02, 0x00] codegen)" by (simp add: wf_put)
  from a have z: "generate_code_float 0 (put [0x02, 0x00] codegen)
                   = generate_code_int8 0 (put [0x02, 0x00] codegen)"
    by (simp add: generate_code_float_def float_is_zero_def)
  from a wf2 have 2: "generate_code_int8 0 (put [0x02, 0x00] codegen)
                       = Inr (put [0x04, 0x00] (put [0x02, 0x00] codegen))"
    using writesD [OF writes_generate_code_int8 [of 0], of "put [0x02, 0x00] codegen"] by simp
  from a wf have 3: "put [0x04, 0x00] (put [0x02, 0x00] codegen) = put [0x02, 0x00, 0x04, 0x00] codegen"
    using put_put [of codegen "[0x02, 0x00]" "[0x04, 0x00]"] by (simp add: wf_sink_def)
  from 1 z 2 3 show "generate_code h (Command ?c) codegen = Inr (put [0x02, 0x00, 0x04, 0x00] codegen)"
    by (simp add: generate_code_command_def bind_r_def)
next
  show "float_is_zero v \<longleftrightarrow> float_finite v \<and> float_value v = 0"
    by (rule float_is_zero_value)
next
  assume "float_finite v \<and> - 32768 \<le> trunc_toward_zero (float_value v * 16)
        \<and> trunc_toward_zero (float_value v * 16) \<le> 32767"
  then show "sint (float_x16_to_int16 v) = trunc_toward_zero (float_value v * 16)"
    by (intro float_x16_to_int16_sint) simp_all
qed

theorem float_encoding_witness:
  "generate_code_float 0 (fresh_codegen (options True True False False) 5)
     = Inr (put [0x04, 0x00] (fresh_codegen (options True True False False) 5))
   \<and> generate_code_float 0x3F800000 (fresh_codegen (options True True False False) 5)
     = Inr (put [0x06, 0x10, 0x00] (fresh_codegen (options True True False False) 5))
   \<and> generate_code_float 0xBF840000 (fresh_codegen (options True True False False) 5)
     = Inr (put [0x06, 0xF0, 0xFF] (fresh_codegen (options True True False False) 5))
   \<and> float_value 0xBF840000 = - 33 / 32
   \<and> sint (float_x16_to_int16 0xBF840000) = - 16
   \<and> generate_code_float 0x3F800000 (fresh_codegen (options True False False False) 5)
     = Inr (put [0x06, 0x00, 0x00, 0x80, 0x3F] (fresh_codegen (options True False False False) 5))
   \<and> generate_code (heap_with Main 0x100 0x10) (Command \<lparr>cmd_id = 0x0002, args = [Float 0]\<rparr>)
         (fresh_codegen (options True True False False) 5)
     = Inr (put [0x02, 0x00, 0x04, 0x00] (fresh_codegen (options True True False False) 5))"
proof -
  let ?a = "fresh_codegen (options True True False False) 5"
  let ?b = "fresh_codegen (options True False False False) 5"
  have oa: "optimize_zero_floats (opt (program ?a))" "use_half_float (opt (program ?a))"
    "offset ?a + 2 \<le> max_offset ?a" "offset ?a + 3 \<le> max_offset ?a" "offset ?a + 4 \<le> max_offset ?a"
    by (simp_all add: fresh_codegen_simps options_def)
  have ob: "\<not> use_half_float (opt (program ?b))" "offset ?b + 5 \<le> max_offset ?b"
    by (simp_all add: fresh_codegen_simps options_def)
  from float_encoding [OF wf_fresh_codegen, of "options True True False False" 5 0 "heap_with Main 0x100 0x10"] oa
  have 1: "generate_code_float 0 ?a = Inr (put [0x04, 0x00] ?a)"
    and 4: "generate_code (heap_with Main 0x100 0x10) (Command \<lparr>cmd_id = 0x0002, args = [Float 0]\<rparr>) ?a
             = Inr (put [0x02, 0x00, 0x04, 0x00] ?a)"
    by (simp_all add: float_is_zero_num)
  from float_encoding [OF wf_fresh_codegen, of "options True True False False" 5 "0x3F800000" "heap_with Main 0x100 0x10"] oa
  have 2: "generate_code_float 0x3F800000 ?a = Inr (put [0x06, 0x10, 0x00] ?a)"
    by (simp add: float_is_zero_num float_one_half le16_16)
  from float_encoding [OF wf_fresh_codegen, of "options True False False False" 5 "0x3F800000" "heap_with Main 0x100 0x10"] ob
  have 3: "generate_code_float 0x3F800000 ?b = Inr (put [0x06, 0x00, 0x00, 0x80, 0x3F] ?b)"
    by (simp add: float_is_zero_num le32_one)
  have nz: "\<not> float_is_zero 0xBF840000" by (simp add: float_is_zero_def)
  have rng: "float_finite 0xBF840000"
    "- 32768 \<le> trunc_toward_zero (float_value 0xBF840000 * 16)"
    "trunc_toward_zero (float_value 0xBF840000 * 16) \<le> 32767"
    by (simp_all add: float_x16_num)
  from float_encoding [OF wf_fresh_codegen, of "options True True False False" 5 "0xBF840000" "heap_with Main 0x100 0x10"] oa nz rng
  have 5: "generate_code_float 0xBF840000 ?a = Inr (put (0x06 # le16 (float_x16_to_int16 0xBF840000)) ?a)"
    and 6: "sint (float_x16_to_int16 0xBF840000) = trunc_toward_zero (float_value 0xBF840000 * 16)"
    by blast+
  from 5 have 7: "generate_code_float 0xBF840000 ?a = Inr (put [0x06, 0xF0, 0xFF] ?a)"
    by (simp add: float_x16_to_int16_num le16_minus_16)
  from 6 have 8: "sint (float_x16_to_int16 0xBF840000) = - 16"
    by (simp add: float_x16_num)
  from 1 2 3 4 7 8 float_value_num show ?thesis by simp
qed

subsection \<open>C6: the variables segment\<close>

text \<open>
  C6, as amended. For every dialect and every \<open>size_global_vars_space\<close> of at least 8, on
  a well-formed sink with room for \<open>size_global_vars_space\<close> bytes, the variables segment is
  the trampoline (7 bytes, with the target \<open>size_global_vars_space\<close> bytes after the start
  of the segment), then the one byte \<open>target_id\<close> (\<open>0x00\<close> for Liberty, \<open>'m'\<close> for Miami,
  \<open>'s'\<close> for SanAndreas), then exactly \<open>size_global_vars_space - 8\<close> zero bytes: after the
  trampoline come \<open>size_global_vars_space - 8 + 1\<close> bytes, and the whole segment takes
  \<open>size_global_vars_space\<close> bytes.
\<close>

theorem variables_segment_body:
  fixes cg :: "'a CodeGeneratorBase_scheme"
  assumes "wf_sink cg" and "8 \<le> size_global_vars_space header"
    and "offset cg + size_global_vars_space header \<le> max_offset cg"
  shows "variables_segment header cg =
           Inr (put (trampoline (of_nat (offset cg + size_global_vars_space header))
                     @ target_id (version header) # replicate (size_global_vars_space header - 8) 0) cg)
         \<and> length (trampoline (of_nat (offset cg + size_global_vars_space header) :: 32 word)) = 7
         \<and> length (target_id (version header) # replicate (size_global_vars_space header - 8) 0)
             = size_global_vars_space header - 8 + 1
         \<and> target_id (version header)
             = (case version header of Liberty \<Rightarrow> 0x00 | Miami \<Rightarrow> 0x6D | SanAndreas \<Rightarrow> 0x73)"
  using variables_segment_put [OF assms] by (simp add: target_id_def)

theorem variables_segment_body_witness:
  "variables_segment (bare_header Miami 16 0 0) (fresh_sink (options False False False False) 16)
     = Inr (put ([0x02, 0x00, 0x01, 0x10, 0x00, 0x00, 0x00]
                 @ 0x6D # [0, 0, 0, 0, 0, 0, 0, 0])
             (fresh_sink (options False False False False) 16))"
proof -
  let ?cg = "fresh_sink (options False False False False) 16"
  let ?h = "bare_header Miami 16 0 0"
  have 1: "8 \<le> size_global_vars_space ?h" "offset ?cg + size_global_vars_space ?h \<le> max_offset ?cg"
    by (simp_all add: bare_header_facts fresh_sink_simps)
  from variables_segment_body [OF wf_fresh_sink 1]
  show ?thesis
    by (simp add: bare_header_facts fresh_sink_simps trampoline_16 replicate_8 target_id_def)
qed


text \<open>
  The claim as stated has \<open>size_global_vars_space - 8 - 1\<close> zero bytes after \<open>target_id\<close>.
  For Miami and \<open>size_global_vars_space = 16\<close>, over a buffer that held \<open>0xAA\<close>, the
  segment is \<open>02 00 01 10 00 00 00\<close>, \<open>6D\<close> and eight zero bytes, not seven; the next
  segment starts at 16, the target of the trampoline.
\<close>

theorem variables_segment_has_one_more_zero:
  "variables_segment (bare_header Miami 16 0 0) (fresh_sink (options False False False False) 16)
     = Inr ((fresh_sink (options False False False False) 16)
             \<lparr>bytecode := [0x02, 0x00, 0x01, 0x10, 0x00, 0x00, 0x00,
                           0x6D, 0, 0, 0, 0, 0, 0, 0, 0],
              offset := 16\<rparr>)
   \<and> size_global_vars_space (bare_header Miami 16 0 0) - 8 - 1 = 7"
proof -
  let ?cg = "fresh_sink (options False False False False) 16"
  let ?h = "bare_header Miami 16 0 0"
  have 1: "8 \<le> size_global_vars_space ?h" "offset ?cg + size_global_vars_space ?h \<le> max_offset ?cg"
    by (simp_all add: bare_header_facts fresh_sink_simps)
  from variables_segment_put [OF wf_fresh_sink 1]
  have "variables_segment ?h ?cg
          = Inr (put [0x02, 0x00, 0x01, 0x10, 0x00, 0x00, 0x00, 0x6D, 0, 0, 0, 0, 0, 0, 0, 0] ?cg)"
    by (simp add: bare_header_facts fresh_sink_simps trampoline_16 replicate_8 target_id_def)
  then show ?thesis
    by (simp add: put_fresh_sink_full bare_header_facts)
qed

subsection \<open>C7: the trampoline of each segment\<close>

text \<open>
  C7. Let the emission of a header return with the image \<open>cgF\<close>, on a well-formed sink and
  with \<open>size_global_vars_space\<close> of at least 8 (the contract of the specification), and
  let \<open>seg\<close> be any of its segments, \<open>pre\<close> the segments before it and \<open>post\<close> those after
  it. Then \<open>seg\<close> starts at the cursor \<open>offset cg\<close> at which \<open>pre\<close> returns, and ends at the
  cursor \<open>offset cg'\<close>, which is where the first byte of the next segment is written, or
  where the header ends when \<open>post\<close> is empty. In the final image the seven bytes at the
  start of \<open>seg\<close> are the trampoline: \<open>02 00\<close> (the \<open>u16\<close> \<open>0x0002\<close>), the tag \<open>01\<close>, and
  the \<open>int32_t\<close> target, little-endian, which is \<open>offset cg'\<close> (as an \<open>int32_t\<close>, that is
  as a 32-bit value).
\<close>

theorem header_trampolines:
  fixes cg0 :: "'a CodeGeneratorBase_scheme"
  assumes wf: "wf_sink cg0" and sg: "8 \<le> size_global_vars_space header"
    and run: "generate_code_header header cg0 = Inr cgF"
    and st: "header_locals header = Some st"
    and split: "header_segments header st = pre @ seg # post"
  shows "\<exists>cg cg'. seq pre cg0 = Inr cg \<and> seg cg = Inr cg' \<and> seq post cg' = Inr cgF
           \<and> offset cg + 8 \<le> offset cg'
           \<and> bytes_between (offset cg) (offset cg + 7) cgF = trampoline (of_nat (offset cg'))"
proof -
  from run st split have "seq (pre @ seg # post) cg0 = Inr cgF"
    by (simp add: generate_code_header_def)
  from seq_split_D [OF this] obtain cg cg' where
    a: "seq pre cg0 = Inr cg" and b: "seg cg = Inr cg'" and c: "seq post cg' = Inr cgF" by blast
  have tr: "\<And>f. f \<in> set (pre @ seg # post) \<Longrightarrow> trampolined f"
  proof -
    fix f
    assume "f \<in> set (pre @ seg # post)"
    then have "f \<in> set (header_segments header st)" by (simp only: split)
    then show "trampolined f" by (rule header_segments_trampolined)
  qed
  from trampolined_seq_keeps [OF _ wf a] tr have wfc: "wf_sink cg" by simp
  from tr have "trampolined seg" by simp
  with wfc b have 1: "wf_sink cg'" "offset cg + 8 \<le> offset cg'"
    "bytes_between (offset cg) (offset cg + 7) cg' = trampoline (of_nat (offset cg'))"
    unfolding trampolined_def by blast+
  from trampolined_seq_keeps [OF _ 1(1) c] tr
  have 2: "take (offset cg') (bytecode cgF) = take (offset cg') (bytecode cg')" by simp
  from 1(2) have "offset cg + 7 \<le> offset cg'" by simp
  from bytes_between_take [OF this 2] 1(3)
  have "bytes_between (offset cg) (offset cg + 7) cgF = trampoline (of_nat (offset cg'))" by simp
  with a b c 1(2) show ?thesis by blast
qed


theorem header_trampolines_witness:
  "\<exists>cgF. generate_code_header (bare_header Liberty 8 0 0) (fresh_sink (options False False False False) 64)
            = Inr cgF
         \<and> bytes_between 8 15 cgF = trampoline 44"
proof -
  let ?h = "bare_header Liberty 8 0 0"
  let ?c0 = "fresh_sink (options False False False False) 64"
  obtain st where st: "header_locals ?h = Some st"
    using header_locals_succeeds [of ?h] by (auto simp: bare_header_facts)
  from header_locals_lists [OF st] have l: "missions st = []" "streameds st = []"
    by (simp_all add: bare_header_facts)
  have sz: "header_emitted_size ?h st = 64"
    by (simp add: header_emitted_size_def scm_info_skip_def l bare_header_facts bare_header_def)
  have "offset ?c0 + header_emitted_size ?h st \<le> max_offset ?c0"
    by (simp add: sz fresh_sink_simps)
  from emitsD2 [OF header_segments_emits this] l
  obtain cgF where run: "seq (header_segments ?h st) ?c0 = Inr cgF" by auto
  with st have g: "generate_code_header ?h ?c0 = Inr cgF"
    by (simp add: generate_code_header_def)
  have split: "header_segments ?h st = [variables_segment ?h] @ models_segment ?h # [scm_info_segment ?h st]"
    by (simp add: header_segments_def bare_header_facts)
  have sg: "8 \<le> size_global_vars_space ?h" by (simp add: bare_header_facts)
  from header_trampolines [OF wf_fresh_sink sg g st split]
  obtain cg cg' where a: "seq [variables_segment ?h] ?c0 = Inr cg" and b: "models_segment ?h cg = Inr cg'"
    and t: "bytes_between (offset cg) (offset cg + 7) cgF = trampoline (of_nat (offset cg'))"
    by blast
  from a have a': "variables_segment ?h ?c0 = Inr cg" by (simp add: seq_single del: seq.simps)
  from extendsD [OF variables_segment_extends(1) wf_fresh_sink a']
  have 1: "wf_sink cg" "offset cg = 8" by (simp_all add: bare_header_facts fresh_sink_simps)
  from extendsD [OF models_segment_extends(1) 1(1) b] 1(2)
  have 2: "offset cg' = 44" by (simp add: bare_header_def)
  from t 1(2) 2 have "bytes_between 8 15 cgF = trampoline 44" by simp
  with g show ?thesis by blast
qed

subsection \<open>C8: \<open>emplace_chars\<close> pads with zeros\<close>

text \<open>
  C8. \<open>emplace_chars(n, s)\<close> on a well-formed sink with room for \<open>n\<close> bytes, for a C string
  \<open>s\<close> of length at most \<open>n\<close>: it returns, the cursor advances by \<open>n\<close>, and the \<open>n\<close> bytes
  written are the characters of \<open>s\<close> followed by \<open>n - len(s)\<close> zero bytes. The zeros are
  written by \<open>strncpy\<close> itself: the statement holds for every sink \<open>cg\<close>, whatever its
  buffer held. (The length of a C string is \<open>strlen\<close>, its characters are those before its
  first NUL; for a byte sequence without a zero byte these are its length and itself.)
  With \<open>has_text_label_prefix\<close>, the \<open>TextLabel8\<close> "HELLO" is emitted as
  \<open>09 48 45 4C 4C 4F 00 00 00\<close>.
\<close>

theorem emplace_chars_zero_padded:
  fixes cg :: "'a CodeGeneratorBase_scheme" and codegen :: "'b CodeGenerator_scheme"
  shows
  "(wf_sink cg \<and> strlen s \<le> n \<and> offset cg + n \<le> max_offset cg \<longrightarrow>
      (\<exists>cg'. emplace_chars n s cg = Inr cg'
         \<and> offset cg' = offset cg + n
         \<and> bytes_between (offset cg) (offset cg + n) cg' = c_string s @ replicate (n - strlen s) 0
         \<and> (0 \<notin> set s \<longrightarrow>
              bytes_between (offset cg) (offset cg + n) cg' = s @ replicate (n - length s) 0)))
   \<and> (wf_sink codegen \<and> has_text_label_prefix (opt (program codegen))
        \<and> offset codegen + 9 \<le> max_offset codegen \<longrightarrow>
      (\<exists>codegen'. generate_code_string \<lparr>str_type = TextLabel8, storage = [0x48, 0x45, 0x4C, 0x4C, 0x4F]\<rparr> codegen
                     = Inr codegen'
         \<and> bytes_between (offset codegen) (offset codegen + 9) codegen'
             = [0x09, 0x48, 0x45, 0x4C, 0x4C, 0x4F, 0x00, 0x00, 0x00]))"
proof (intro conjI impI)
  assume a: "wf_sink cg \<and> strlen s \<le> n \<and> offset cg + n \<le> max_offset cg"
  then have 1: "emplace_chars n s cg = Inr (put (strncpy s n) cg)"
    by (intro writesD [OF writes_emplace_chars]) simp_all
  from a have 2: "bytes_between (offset cg) (offset cg + n) (put (strncpy s n) cg) = strncpy s n"
    using bytes_between_put [of cg "strncpy s n"] by (simp add: wf_sink_def)
  from a have 3: "strncpy s n = c_string s @ replicate (n - strlen s) 0"
    by (simp add: strncpy_short)
  have 4: "0 \<notin> set s \<Longrightarrow> c_string s = s \<and> strlen s = length s"
    by (simp add: c_string_id strlen_def)
  let ?cg' = "put (strncpy s n) cg"
  have 5: "offset ?cg' = offset cg + n" by simp
  from 2 3 have 6: "bytes_between (offset cg) (offset cg + n) ?cg' = c_string s @ replicate (n - strlen s) 0"
    by (rule trans)
  from 6 4 have 7: "0 \<notin> set s \<longrightarrow>
      bytes_between (offset cg) (offset cg + n) ?cg' = s @ replicate (n - length s) 0"
    by metis
  from 1 5 6 7 show "\<exists>cg'. emplace_chars n s cg = Inr cg'
         \<and> offset cg' = offset cg + n
         \<and> bytes_between (offset cg) (offset cg + n) cg' = c_string s @ replicate (n - strlen s) 0
         \<and> (0 \<notin> set s \<longrightarrow>
              bytes_between (offset cg) (offset cg + n) cg' = s @ replicate (n - length s) 0)"
    by blast
next
  let ?s = "[0x48, 0x45, 0x4C, 0x4C, 0x4F] :: byte list"
  let ?out = "[0x09, 0x48, 0x45, 0x4C, 0x4C, 0x4F, 0x00, 0x00, 0x00] :: byte list"
  assume a: "wf_sink codegen \<and> has_text_label_prefix (opt (program codegen))
             \<and> offset codegen + 9 \<le> max_offset codegen"
  have s: "strncpy ?s 8 = [0x48, 0x45, 0x4C, 0x4C, 0x4F, 0, 0, 0]"
    by (simp add: strncpy_def strlen_def c_string_def replicate_3)
  have "writes ([9] @ (strncpy ?s 8 @ [])) (seq [emplace_u8 9, emplace_chars 8 ?s]
           :: 'b CodeGenerator_scheme \<Rightarrow> 'b CodeGenerator_scheme result)"
    by (intro writes_seq_Cons writes_emplace_u8 writes_emplace_chars writes_seq_Nil)
  then have w: "writes ?out (seq [emplace_u8 9, emplace_chars 8 ?s]
           :: 'b CodeGenerator_scheme \<Rightarrow> 'b CodeGenerator_scheme result)"
    unfolding s by simp
  from a have "generate_code_string \<lparr>str_type = TextLabel8, storage = ?s\<rparr> codegen
                 = seq [emplace_u8 9, emplace_chars 8 ?s] codegen"
    by (simp add: writes_text_label8_prefixed)
  also from a have "\<dots> = Inr (put ?out codegen)"
    by (intro writesD [OF w]) simp_all
  finally have 1: "generate_code_string \<lparr>str_type = TextLabel8, storage = ?s\<rparr> codegen
                 = Inr (put ?out codegen)" .
  from a have "bytes_between (offset codegen) (offset codegen + 9) (put ?out codegen) = ?out"
    by (intro bytes_between_put_n) simp_all
  with 1 show "\<exists>codegen'. generate_code_string \<lparr>str_type = TextLabel8, storage = ?s\<rparr> codegen
                     = Inr codegen'
         \<and> bytes_between (offset codegen) (offset codegen + 9) codegen' = ?out"
    by simp
qed

theorem emplace_chars_zero_padded_witness:
  "(\<exists>cg'. emplace_chars 4 [0x41, 0x42] (fresh_sink (options False False False True) 6) = Inr cg'
       \<and> offset cg' = 4
       \<and> bytes_between 0 4 cg' = [0x41, 0x42, 0, 0])
   \<and> (\<exists>cg'. generate_code_string \<lparr>str_type = TextLabel8, storage = [0x48, 0x45, 0x4C, 0x4C, 0x4F]\<rparr>
                (fresh_codegen (options False False False True) 9) = Inr cg'
       \<and> bytes_between 0 9 cg' = [0x09, 0x48, 0x45, 0x4C, 0x4C, 0x4F, 0x00, 0x00, 0x00])"
proof -
  let ?o = "options False False False True"
  have h1: "wf_sink (fresh_sink ?o 6) \<and> strlen [0x41, 0x42] \<le> 4
            \<and> offset (fresh_sink ?o 6) + 4 \<le> max_offset (fresh_sink ?o 6)"
    by (simp add: wf_fresh_sink fresh_sink_simps strlen_def c_string_def)
  have h2: "wf_sink (fresh_codegen ?o 9) \<and> has_text_label_prefix (opt (program (fresh_codegen ?o 9)))
            \<and> offset (fresh_codegen ?o 9) + 9 \<le> max_offset (fresh_codegen ?o 9)"
    by (simp add: wf_fresh_codegen fresh_codegen_simps options_def)
  have z: "(0::byte) \<notin> set [0x41, 0x42]" by simp
  from emplace_chars_zero_padded [of "fresh_sink ?o 6" "[0x41, 0x42]" 4 "fresh_codegen ?o 9"] h1 h2 z
  show ?thesis by (simp add: fresh_sink_simps fresh_codegen_simps strlen_def c_string_def replicate_2)
qed

subsection \<open>C9: the capacity assertions of the sink\<close>

text \<open>
  C9, as amended. \<open>emplace_u8\<close> and \<open>emplace_i8\<close> assert \<open>offset + 1 \<le> max_offset\<close> before they
  write: when the byte does not fit, the run ends with the sink untouched.
  \<open>emplace_chars\<close>, \<open>emplace_bytes\<close> and \<open>emplace_fill\<close> assert \<open>offset + n \<le> max_offset\<close> with
  the sum taken in \<open>size_t\<close>: when the \<open>n\<close> bytes do not fit and \<open>offset + n\<close> is below
  \<open>2 ^ 64\<close>, the run ends with the sink untouched; when \<open>offset + n\<close> wraps around to a value
  within the capacity, the assertion passes although the bytes do not fit, and the copy runs
  past the end of the buffer. \<open>emplace_u16\<close>, \<open>emplace_u32\<close>, \<open>emplace_i16\<close> and \<open>emplace_i32\<close>
  have no assertion of their own (it is commented out in the source); they write byte after
  byte through \<open>emplace_u8\<close>, which asserts for one byte each time. When their 2 or 4 bytes
  do not fit in a well-formed sink, the leading \<open>max_offset - offset\<close> bytes of the
  little-endian value are written, the cursor stops at the capacity, and the assertion of
  the next byte ends the run.
\<close>

theorem emplace_capacity_assertions:
  "(max_offset cg < offset cg + 1 \<longrightarrow>
      emplace_u8 v cg = Inl (AssertionFailed, cg) \<and> emplace_i8 v cg = Inl (AssertionFailed, cg))
   \<and> (max_offset cg < offset cg + n \<and> offset cg + n < 2 ^ 64 \<longrightarrow>
      emplace_chars n s cg = Inl (AssertionFailed, cg)
      \<and> emplace_bytes n s cg = Inl (AssertionFailed, cg)
      \<and> emplace_fill n b cg = Inl (AssertionFailed, cg))
   \<and> (n < 2 ^ 64 \<and> max_offset cg < offset cg + n \<and> (offset cg + n) mod 2 ^ 64 \<le> max_offset cg \<longrightarrow>
      run_error (emplace_chars n s cg) = Some WriteOutOfBounds
      \<and> run_error (emplace_bytes n s cg) = Some WriteOutOfBounds
      \<and> run_error (emplace_fill n b cg) = Some WriteOutOfBounds)
   \<and> (wf_sink cg \<and> max_offset cg < offset cg + 2 \<longrightarrow>
      emplace_u16 w cg = Inl (AssertionFailed, put (take (max_offset cg - offset cg) (le16 w)) cg)
      \<and> emplace_i16 w cg = Inl (AssertionFailed, put (take (max_offset cg - offset cg) (le16 w)) cg))
   \<and> (wf_sink cg \<and> max_offset cg < offset cg + 4 \<longrightarrow>
      emplace_u32 d cg = Inl (AssertionFailed, put (take (max_offset cg - offset cg) (le32 d)) cg)
      \<and> emplace_i32 d cg = Inl (AssertionFailed, put (take (max_offset cg - offset cg) (le32 d)) cg))"
proof (intro conjI impI)
  assume "max_offset cg < offset cg + 1"
  then show "emplace_u8 v cg = Inl (AssertionFailed, cg)" "emplace_i8 v cg = Inl (AssertionFailed, cg)"
    by (simp_all add: emplace_u8_def emplace_i8_def)
next
  assume a: "max_offset cg < offset cg + n \<and> offset cg + n < 2 ^ 64"
  then have "size_t_add (offset cg) n = offset cg + n"
    by (simp add: size_t_add_def)
  with a show "emplace_chars n s cg = Inl (AssertionFailed, cg)"
    "emplace_bytes n s cg = Inl (AssertionFailed, cg)"
    "emplace_fill n b cg = Inl (AssertionFailed, cg)"
    by (simp_all add: emplace_chars_def emplace_bytes_def emplace_fill_def)
next
  assume a: "n < 2 ^ 64 \<and> max_offset cg < offset cg + n \<and> (offset cg + n) mod 2 ^ 64 \<le> max_offset cg"
  then have "size_t_add (offset cg) n \<le> max_offset cg"
    by (simp add: size_t_add_def)
  with a show "run_error (emplace_chars n s cg) = Some WriteOutOfBounds"
    "run_error (emplace_bytes n s cg) = Some WriteOutOfBounds"
    "run_error (emplace_fill n b cg) = Some WriteOutOfBounds"
    by (simp_all add: emplace_chars_def emplace_bytes_def emplace_fill_def run_error_def)
next
  assume a: "wf_sink cg \<and> max_offset cg < offset cg + 2"
  then have "seq (map emplace_u8 (le16 w)) cg
      = Inl (AssertionFailed, put (take (max_offset cg - offset cg) (le16 w)) cg)"
    by (intro seq_u8_overflow) (simp_all add: le16_def)
  then show "emplace_u16 w cg = Inl (AssertionFailed, put (take (max_offset cg - offset cg) (le16 w)) cg)"
    "emplace_i16 w cg = Inl (AssertionFailed, put (take (max_offset cg - offset cg) (le16 w)) cg)"
    by (simp_all add: emplace_i16_def emplace_u16_eq)
next
  assume a: "wf_sink cg \<and> max_offset cg < offset cg + 4"
  then have "seq (map emplace_u8 (le32 d)) cg
      = Inl (AssertionFailed, put (take (max_offset cg - offset cg) (le32 d)) cg)"
    by (intro seq_u8_overflow) (simp_all add: le32_def)
  then show "emplace_u32 d cg = Inl (AssertionFailed, put (take (max_offset cg - offset cg) (le32 d)) cg)"
    "emplace_i32 d cg = Inl (AssertionFailed, put (take (max_offset cg - offset cg) (le32 d)) cg)"
    by (simp_all add: emplace_i32_def emplace_u32_eq)
qed

theorem emplace_capacity_assertions_witness:
  "emplace_u8 7 (put [1, 2, 3] (fresh_sink (options False False False False) 3))
     = Inl (AssertionFailed, put [1, 2, 3] (fresh_sink (options False False False False) 3))
   \<and> emplace_fill 2 0 (put [1, 2, 3] (fresh_sink (options False False False False) 3))
     = Inl (AssertionFailed, put [1, 2, 3] (fresh_sink (options False False False False) 3))
   \<and> run_error (emplace_fill 18446744073709551615 0 (put [1, 2, 3] (fresh_sink (options False False False False) 3)))
     = Some WriteOutOfBounds
   \<and> emplace_u16 5 (put [1, 2, 3] (fresh_sink (options False False False False) 3))
     = Inl (AssertionFailed, put [1, 2, 3] (fresh_sink (options False False False False) 3))
   \<and> emplace_u32 0x12345678 (fresh_sink (options False False False False) 3)
     = Inl (AssertionFailed, put [0x78, 0x56, 0x34] (fresh_sink (options False False False False) 3))"
proof -
  let ?s = "fresh_sink (options False False False False) 3"
  have wf: "wf_sink ?s" by (rule wf_fresh_sink)
  have wf': "wf_sink (put [1, 2, 3] ?s)"
    by (rule wf_put [OF wf]) (simp add: fresh_sink_simps)
  have full: "max_offset (put [1, 2, 3] ?s) < offset (put [1, 2, 3] ?s) + 1"
    "max_offset (put [1, 2, 3] ?s) < offset (put [1, 2, 3] ?s) + 2"
    "offset (put [1, 2, 3] ?s) + 2 < (2::nat) ^ 64"
    by (simp_all add: fresh_sink_simps)
  have wrap: "(18446744073709551615::nat) < 2 ^ 64"
    "max_offset (put [1, 2, 3] ?s) < offset (put [1, 2, 3] ?s) + 18446744073709551615"
    "(offset (put [1, 2, 3] ?s) + 18446744073709551615) mod 2 ^ 64 \<le> max_offset (put [1, 2, 3] ?s)"
    by (simp_all add: fresh_sink_simps)
  have short: "max_offset ?s < offset ?s + 4" "max_offset ?s - offset ?s = 3"
    by (simp_all add: fresh_sink_simps)
  from emplace_capacity_assertions [of "put [1, 2, 3] ?s" 7 2 "[]" 0 5 0] full wf'
  have 1: "emplace_u8 7 (put [1, 2, 3] ?s) = Inl (AssertionFailed, put [1, 2, 3] ?s)"
    and 2: "emplace_fill 2 0 (put [1, 2, 3] ?s) = Inl (AssertionFailed, put [1, 2, 3] ?s)"
    and 4: "emplace_u16 5 (put [1, 2, 3] ?s)
              = Inl (AssertionFailed, put (take (max_offset (put [1, 2, 3] ?s) - offset (put [1, 2, 3] ?s)) (le16 5)) (put [1, 2, 3] ?s))"
    by blast+
  from 4 have 5: "emplace_u16 5 (put [1, 2, 3] ?s) = Inl (AssertionFailed, put [1, 2, 3] ?s)"
    by (simp add: fresh_sink_simps)
  from emplace_capacity_assertions [of "put [1, 2, 3] ?s" 0 18446744073709551615 "[]" 0 0 0] wrap
  have 6: "run_error (emplace_fill 18446744073709551615 0 (put [1, 2, 3] ?s)) = Some WriteOutOfBounds"
    by blast
  from emplace_capacity_assertions [of ?s 0 5 "[]" 0 0 "0x12345678"] short wf
  have "emplace_u32 0x12345678 ?s = Inl (AssertionFailed, put (take 3 (le32 0x12345678)) ?s)"
    by simp
  then have 3: "emplace_u32 0x12345678 ?s = Inl (AssertionFailed, put [0x78, 0x56, 0x34] ?s)"
    by (simp add: le32_num)
  from 1 2 3 5 6 show ?thesis by simp
qed


text \<open>
  The claim as stated fails for the operations of more than one byte: with room for one
  byte, \<open>emplace_u16(0x1234)\<close> writes \<open>0x34\<close> over the \<open>0xAA\<close> that was there and advances
  the cursor, and only then does the assertion fail.
\<close>

theorem emplace_u16_writes_before_assertion:
  "max_offset (fresh_sink (options False False False False) 1)
     < offset (fresh_sink (options False False False False) 1) + 2
   \<and> emplace_u16 0x1234 (fresh_sink (options False False False False) 1)
     = Inl (AssertionFailed,
            (fresh_sink (options False False False False) 1)\<lparr>bytecode := [0x34], offset := 1\<rparr>)"
  by (simp add: emplace_u16_def emplace_u8_def bind_r_def fresh_sink_def setup_buffer_def)

subsection \<open>C10: the header fills its buffer\<close>

text \<open>
  C10, as amended. \<open>CodeGeneratorData::generate\<close> allocates
  \<open>CompiledScmHeader::compiled_size()\<close> bytes and emits the header into them. Let
  \<open>size_global_vars_space\<close> be at least 8. If every script has its size set, every
  \<open>Mission\<close> script has its offset set (the SCM info segment reads it with \<open>value()\<close>),
  \<open>num_missions\<close> is the number of \<open>Mission\<close> scripts and, for SanAndreas, \<open>num_streamed\<close>
  is the number of \<open>StreamedScript\<close> scripts, then \<open>generate\<close> returns with the cursor at
  the capacity, which is \<open>compiled_size()\<close>: no assertion fires. And whenever \<open>generate\<close>
  returns, the bytes written are \<open>compiled_size()\<close> plus 4 for each \<open>Mission\<close> script beyond
  \<open>num_missions\<close> (minus 4 for each one missing) and, for SanAndreas only, plus 28 for each
  \<open>StreamedScript\<close> beyond \<open>num_streamed\<close>; so they differ from \<open>compiled_size()\<close> exactly
  when these corrections do not cancel. For Liberty and Miami \<open>num_streamed\<close> plays no
  part.
\<close>

theorem header_generate_size:
  assumes sg: "8 \<le> size_global_vars_space (compiled_header cg)"
  shows
   "((\<forall>sc \<in> set (scripts (compiled_header cg)). script_size sc \<noteq> None)
     \<and> (\<forall>sc \<in> set (scripts (compiled_header cg)). script_type sc = Mission \<longrightarrow> script_offset sc \<noteq> None)
     \<and> num_missions (compiled_header cg) = length (scripts_of Mission (compiled_header cg))
     \<and> (version (compiled_header cg) = SanAndreas \<longrightarrow>
          num_streamed (compiled_header cg) = length (scripts_of StreamedScript (compiled_header cg)))
     \<longrightarrow> (\<exists>cg'. generate_data mem cg = Inr cg' \<and> offset cg' = max_offset cg'
             \<and> max_offset cg' = CompiledScmHeader_compiled_size (compiled_header cg)))
    \<and> (\<forall>cg'. generate_data mem cg = Inr cg' \<longrightarrow>
          max_offset cg' = CompiledScmHeader_compiled_size (compiled_header cg)
          \<and> offset cg' + 4 * num_missions (compiled_header cg)
               + (if version (compiled_header cg) = SanAndreas
                  then 28 * num_streamed (compiled_header cg) else 0)
             = CompiledScmHeader_compiled_size (compiled_header cg)
               + 4 * length (scripts_of Mission (compiled_header cg))
               + (if version (compiled_header cg) = SanAndreas
                  then 28 * length (scripts_of StreamedScript (compiled_header cg)) else 0))"
proof (intro conjI impI allI)
  assume a: "(\<forall>sc \<in> set (scripts (compiled_header cg)). script_size sc \<noteq> None)
     \<and> (\<forall>sc \<in> set (scripts (compiled_header cg)). script_type sc = Mission \<longrightarrow> script_offset sc \<noteq> None)
     \<and> num_missions (compiled_header cg) = length (scripts_of Mission (compiled_header cg))
     \<and> (version (compiled_header cg) = SanAndreas \<longrightarrow>
          num_streamed (compiled_header cg) = length (scripts_of StreamedScript (compiled_header cg)))"
  show "\<exists>cg'. generate_data mem cg = Inr cg' \<and> offset cg' = max_offset cg'
             \<and> max_offset cg' = CompiledScmHeader_compiled_size (compiled_header cg)"
    by (rule generate_data_succeeds [OF sg]) (use a in blast)+
next
  fix cg'
  assume r: "generate_data mem cg = Inr cg'"
  from generate_data_size(2) [OF r sg]
  show "max_offset cg' = CompiledScmHeader_compiled_size (compiled_header cg)" .
  from generate_data_size(1) [OF r sg]
  show "offset cg' + 4 * num_missions (compiled_header cg)
               + (if version (compiled_header cg) = SanAndreas
                  then 28 * num_streamed (compiled_header cg) else 0)
             = CompiledScmHeader_compiled_size (compiled_header cg)
               + 4 * length (scripts_of Mission (compiled_header cg))
               + (if version (compiled_header cg) = SanAndreas
                  then 28 * length (scripts_of StreamedScript (compiled_header cg)) else 0)" .
qed

theorem header_generate_size_witness:
  "\<exists>cg'. generate_data (\<lambda>_. 0xAA) (data_codegen example_header) = Inr cg'
         \<and> offset cg' = 172 \<and> max_offset cg' = 172
         \<and> CompiledScmHeader_compiled_size example_header = 172"
proof -
  let ?cg = "data_codegen example_header"
  have sg: "8 \<le> size_global_vars_space (compiled_header ?cg)"
    by (simp add: example_header_facts)
  note t = header_generate_size [OF sg, of "\<lambda>_. 0xAA", unfolded example_header_facts(1)]
  have pre: "(\<forall>sc \<in> set (scripts example_header). script_size sc \<noteq> None)
     \<and> (\<forall>sc \<in> set (scripts example_header). script_type sc = Mission \<longrightarrow> script_offset sc \<noteq> None)
     \<and> num_missions example_header = length (scripts_of Mission example_header)
     \<and> (version example_header = SanAndreas \<longrightarrow>
          num_streamed example_header = length (scripts_of StreamedScript example_header))"
    by (simp add: example_header_facts)
  from t pre obtain cg' where r: "generate_data (\<lambda>_. 0xAA) ?cg = Inr cg'"
    and o: "offset cg' = max_offset cg'"
    by blast
  from t r have "max_offset cg' = CompiledScmHeader_compiled_size example_header" by blast
  with r o show ?thesis by (simp add: example_header_facts)
qed


text \<open>
  The claim as stated has the bytes differ from \<open>compiled_size()\<close> as soon as either count
  is wrong. A Liberty header without scripts whose \<open>num_streamed\<close> is 1 is emitted in
  exactly \<open>compiled_size()\<close> bytes.
\<close>

theorem wrong_num_streamed_same_size:
  "num_streamed (bare_header Liberty 8 0 1) \<noteq> length (scripts_of StreamedScript (bare_header Liberty 8 0 1))
   \<and> final_offset (generate_data (\<lambda>_. 0xAA) (data_codegen (bare_header Liberty 8 0 1)))
     = Some (CompiledScmHeader_compiled_size (bare_header Liberty 8 0 1))"
proof -
  let ?h = "bare_header Liberty 8 0 1"
  have "\<exists>cg'. generate_data (\<lambda>_. 0xAA) (data_codegen ?h) = Inr cg' \<and> offset cg' = max_offset cg'
           \<and> max_offset cg' = CompiledScmHeader_compiled_size (compiled_header (data_codegen ?h))"
    by (rule generate_data_succeeds) (simp_all add: bare_header_facts)
  then have "final_offset (generate_data (\<lambda>_. 0xAA) (data_codegen ?h))
     = Some (CompiledScmHeader_compiled_size ?h)"
    by (auto simp: final_offset_def bare_header_facts(1))
  then show ?thesis by (simp add: bare_header_facts)
qed

end
